theory Spec2Isabelle
  imports Main "HOL-Library.Word"
begin

section \<open>Errors\<close>

text \<open>
  The Go code reports failures as \<open>error\<close> values built with \<open>fmt.Errorf\<close> and
  \<open>errors.New\<close>. Each construction site of the source is one constructor here;
  \<open>Wrapped\<close> is the \<open>%w\<close> wrapping of an inner error under a message prefix.
  \<open>ConstraintViolation\<close> is the failure SQLite reports when a \<open>UNIQUE\<close> constraint of
  the schema is violated, \<open>DriverError\<close> any other failure of a database call,
  \<open>TransportFailure\<close> what \<open>gofeed\<close>'s \<open>ParseURL\<close> reports, \<open>Usage\<close> a plain message.
\<close>

datatype error =
    EmptyDuration
  | InvalidDurationFormat string
  | InvalidDurationNumber string
  | InvalidDurationUnit string
  | SyntaxError string
  | RangeError string
  | ConstraintViolation
  | DriverError string
  | TransportFailure string
  | Usage string
  | Wrapped string error

section \<open>store/query.go: the recency shorthand\<close>

type_synonym Duration = "64 word"
  \<comment> \<open>\<open>time.Duration\<close>: an \<open>int64\<close> count of nanoseconds; arithmetic wraps\<close>

definition Hour :: Duration where
  "Hour = 3600000000000"

definition isDigit :: "char \<Rightarrow> bool" where
  \<comment> \<open>the class \<open>\d\<close> of Go's \<open>regexp\<close>: the ASCII digits\<close>
  "isDigit c = (48 \<le> (of_char c :: nat) \<and> (of_char c :: nat) \<le> 57)"

definition digitVal :: "char \<Rightarrow> nat" where
  "digitVal c = (of_char c :: nat) - 48"

definition decimal :: "string \<Rightarrow> nat" where
  \<comment> \<open>the number a sequence of decimal digits denotes\<close>
  "decimal ds = foldl (\<lambda>acc c. 10 * acc + digitVal c) 0 ds"

definition durationPattern :: "string \<Rightarrow> (string \<times> string) option" where
  \<comment> \<open>\<open>durationPattern.FindStringSubmatch\<close> for \<open>^(\d+)([dwmy])$\<close>: the two groups of the
      only possible match, the digits before the last byte and the last byte\<close>
  "durationPattern s =
     (if s = [] then None
      else if butlast s \<noteq> [] \<and> list_all isDigit (butlast s) \<and> last s \<in> set ''dwmy''
           then Some (butlast s, [last s])
           else None)"

definition Atoi :: "string \<Rightarrow> error + int" where
  \<comment> \<open>\<open>strconv.Atoi\<close> with a 64-bit \<open>int\<close>: optional sign, decimal digits, range check\<close>
  "Atoi s =
     (let neg = (s \<noteq> [] \<and> hd s = CHR ''-'');
          body = (if s \<noteq> [] \<and> (hd s = CHR ''-'' \<or> hd s = CHR ''+'') then tl s else s)
      in if body = [] \<or> \<not> list_all isDigit body then Inl (SyntaxError s)
         else if neg then
           (if int (decimal body) > 2 ^ 63 then Inl (RangeError s)
            else Inr (- int (decimal body)))
         else
           (if int (decimal body) > 2 ^ 63 - 1 then Inl (RangeError s)
            else Inr (int (decimal body))))"

definition ParseDuration :: "string \<Rightarrow> error + Duration" where
  "ParseDuration s =
     (if s = [] then Inl EmptyDuration
      else case durationPattern s of
        None \<Rightarrow> Inl (InvalidDurationFormat s)
      | Some (numstr, unit) \<Rightarrow>
          (case Atoi numstr of
             Inl err \<Rightarrow> Inl (InvalidDurationNumber numstr)
           | Inr num \<Rightarrow>
               if num < 0 then Inl (InvalidDurationNumber numstr)
               else if unit = ''d'' then Inr (word_of_int num * 24 * Hour)
               else if unit = ''w'' then Inr (word_of_int num * 7 * 24 * Hour)
               else if unit = ''m'' then Inr (word_of_int num * 30 * 24 * Hour)
               else if unit = ''y'' then Inr (word_of_int num * 365 * 24 * Hour)
               else Inl (InvalidDurationUnit unit)))"

type_synonym time = int
  \<comment> \<open>a \<open>time.Time\<close> instant, as nanoseconds since the Unix epoch\<close>

definition Add :: "time \<Rightarrow> Duration \<Rightarrow> time" where
  \<comment> \<open>\<open>Time.Add\<close>: the instant \<open>t + d\<close>, the duration read as a signed count\<close>
  "Add t d = t + sint d"

definition Unix :: "time \<Rightarrow> int" where
  \<comment> \<open>\<open>Time.Unix\<close>: whole seconds since the epoch, rounded down\<close>
  "Unix t = t div 1000000000"

definition SinceToUnixTime :: "time \<Rightarrow> string \<Rightarrow> error + int" where
  \<comment> \<open>the first argument is the reading of \<open>time.Now()\<close>\<close>
  "SinceToUnixTime now since =
     (case ParseDuration since of
        Inl err \<Rightarrow> Inl err
      | Inr duration \<Rightarrow> Inr (Unix (Add now (- duration))))"

record QueryOptions =
  Limit :: int
  Offset :: int
  UnreadOnly :: bool
  Tag :: string
  SinceTime :: "int option"

definition BuildQueryOptions ::
  "time \<Rightarrow> int \<Rightarrow> int \<Rightarrow> bool \<Rightarrow> string \<Rightarrow> string \<Rightarrow> error + QueryOptions" where
  "BuildQueryOptions now limit offset unread since tag =
     (let opts = \<lparr>Limit = limit, Offset = offset, UnreadOnly = unread, Tag = tag,
                  SinceTime = None\<rparr>
      in if since \<noteq> [] then
           (case SinceToUnixTime now since of
              Inl err \<Rightarrow> Inl (Wrapped ''failed to parse --since flag'' err)
            | Inr sinceUnix \<Rightarrow> Inr (opts\<lparr>SinceTime := Some sinceUnix\<rparr>))
         else Inr opts)"

subsection \<open>The shorthand as the specification words it\<close>

definition unitDays :: "char \<Rightarrow> int" where
  \<comment> \<open>days per unit: d, w (7 days), m (30 days), y (365 days)\<close>
  "unitDays u =
     (if u = CHR ''d'' then 1 else if u = CHR ''w'' then 7
      else if u = CHR ''m'' then 30 else if u = CHR ''y'' then 365 else 0)"

definition dayNanos :: int where
  "dayNanos = 86400000000000"

definition shorthand :: "string \<Rightarrow> bool" where
  \<comment> \<open>the shape \<open><digits><unit>\<close> with unit one of d, w, m, y\<close>
  "shorthand s =
     (\<exists>ds u. s = ds @ [u] \<and> ds \<noteq> [] \<and> list_all isDigit ds \<and> u \<in> set ''dwmy'')"

section \<open>model/types.go\<close>

record Feed =
  feed_ID :: int
  feed_URL :: string
  feed_Title :: string
  feed_Category :: string
  feed_LastUpdated :: "time option"
  feed_ETag :: string
  feed_LastModified :: string

record Entry =
  ID :: int
  FeedID :: int
  GUID :: string
  Title :: string
  Link :: string
  Content :: string
  Published :: time
  IsRead :: bool
  Tags :: "string list"

section \<open>feed/fetcher.go: the normalizer\<close>

text \<open>
  The fields of \<open>gofeed.Item\<close> and \<open>gofeed.Feed\<close> that the fetcher reads. The two
  parsed dates are pointers in Go: \<open>None\<close> is \<open>nil\<close>.
\<close>

record Item =
  item_GUID :: string
  item_Title :: string
  item_Link :: string
  item_Content :: string
  item_Description :: string
  PublishedParsed :: "time option"
  UpdatedParsed :: "time option"

record gofeed_Feed =
  gf_Title :: string
  gf_Link :: string
  gf_Items :: "Item list"

definition zeroTime :: time where
  \<comment> \<open>the zero \<open>time.Time\<close>, January 1 of year 1\<close>
  "zeroTime = - 62135596800000000000"

definition convertItem :: "time \<Rightarrow> Item \<Rightarrow> Entry" where
  \<comment> \<open>the first argument is the reading \<open>time.Now()\<close> would give in this call\<close>
  "convertItem now item =
     (let entry = \<lparr>ID = 0, FeedID = 0, GUID = item_GUID item, Title = item_Title item,
                   Link = item_Link item, Content = [], Published = zeroTime,
                   IsRead = False, Tags = []\<rparr>;
          entry = (if GUID entry = [] then entry\<lparr>GUID := item_Link item\<rparr> else entry);
          entry = (if item_Content item \<noteq> [] then entry\<lparr>Content := item_Content item\<rparr>
                   else if item_Description item \<noteq> []
                        then entry\<lparr>Content := item_Description item\<rparr>
                        else entry)
      in case PublishedParsed item of
           Some t \<Rightarrow> entry\<lparr>Published := t\<rparr>
         | None \<Rightarrow>
             (case UpdatedParsed item of
                Some t \<Rightarrow> entry\<lparr>Published := t\<rparr>
              | None \<Rightarrow> entry\<lparr>Published := now\<rparr>))"

definition convert :: "(nat \<Rightarrow> time) \<Rightarrow> gofeed_Feed \<Rightarrow> string \<Rightarrow> Feed \<times> Entry list" where
  \<comment> \<open>\<open>clock k\<close> is the reading of the clock while item \<open>k\<close> is converted\<close>
  "convert clock gf url =
     (let feed = \<lparr>feed_ID = 0, feed_URL = url, feed_Title = gf_Title gf, feed_Category = [],
                  feed_LastUpdated = None, feed_ETag = [], feed_LastModified = []\<rparr>;
          feed = (if feed_URL feed = [] \<and> gf_Link gf \<noteq> []
                  then feed\<lparr>feed_URL := gf_Link gf\<rparr> else feed)
      in (feed, map (\<lambda>(k, item). convertItem (clock k) item) (enumerate 0 (gf_Items gf))))"

definition Fetch ::
  "(string \<Rightarrow> error + gofeed_Feed) \<Rightarrow> (nat \<Rightarrow> time) \<Rightarrow> string \<Rightarrow> error + Feed \<times> Entry list" where
  \<comment> \<open>\<open>ParseURL\<close> is \<open>gofeed\<close>'s network fetch and parse, outside this repository\<close>
  "Fetch ParseURL clock url =
     (case ParseURL url of
        Inl err \<Rightarrow> Inl (Wrapped (''failed to fetch feed from '' @ url) err)
      | Inr parsedFeed \<Rightarrow> Inr (convert clock parsedFeed url))"

section \<open>store/store.go: the entries table\<close>

text \<open>
  The store is an SQLite database. The model keeps the \<open>entries\<close> table of
  \<open>createSchema\<close> as the list of its rows in insertion order, and the counter behind
  \<open>INTEGER PRIMARY KEY AUTOINCREMENT\<close>. The statements the Go code sends are modelled
  by what SQLite does with them under the schema: an \<open>INSERT\<close> or \<open>UPDATE\<close> that would
  leave two rows with the same \<open>(feed_id, guid)\<close> fails on \<open>UNIQUE(feed_id, guid)\<close> and
  changes nothing. Foreign keys are not enforced (the code never switches them on).

  Every call that reaches the database takes a \<open>string option\<close>: \<open>Some msg\<close> is a failure of
  the driver in that call (disk, lock, closed handle), which leaves the table as it was;
  \<open>None\<close> is a database that answers.
\<close>

record Row =
  row_id :: int
  row_feed_id :: int
  row_guid :: string
  row_title :: string
  row_link :: string
  row_content :: string
  row_published :: int
  row_is_read :: int

record Store =
  entries :: "Row list"
  entries_seq :: int

definition emptyStore :: Store where
  \<comment> \<open>the database right after \<open>createSchema\<close> on a new file\<close>
  "emptyStore = \<lparr>entries = [], entries_seq = 0\<rparr>"

definition boolToInt :: "bool \<Rightarrow> int" where
  "boolToInt b = (if b then 1 else 0)"

definition intToBool :: "int \<Rightarrow> bool" where
  "intToBool i = (i \<noteq> 0)"

definition unixToTime :: "int \<Rightarrow> time" where
  "unixToTime unix = unix * 1000000000"

definition row_key :: "Row \<Rightarrow> int \<times> string" where
  \<comment> \<open>the columns of \<open>UNIQUE(feed_id, guid)\<close>\<close>
  "row_key r = (row_feed_id r, row_guid r)"

definition entryRow :: "int \<Rightarrow> Entry \<Rightarrow> Row" where
  \<comment> \<open>the column values \<open>SaveEntry\<close> binds, for the row with the given id\<close>
  "entryRow i e =
     \<lparr>row_id = i, row_feed_id = FeedID e, row_guid = GUID e, row_title = Title e,
      row_link = Link e, row_content = Content e, row_published = Unix (Published e),
      row_is_read = boolToInt (IsRead e)\<rparr>"

definition SaveEntry :: "string option \<Rightarrow> Entry \<Rightarrow> Store \<Rightarrow> error option \<times> Entry \<times> Store" where
  \<comment> \<open>returns the error (\<open>None\<close> is \<open>nil\<close>), the entry as the call leaves it, and the store\<close>
  "SaveEntry fault e s =
     (if ID e = 0 then
        (case fault of
           Some msg \<Rightarrow> (Some (Wrapped ''failed to insert entry'' (DriverError msg)), e, s)
         | None \<Rightarrow>
             if (FeedID e, GUID e) \<in> set (map row_key (entries s))
             then (Some (Wrapped ''failed to insert entry'' ConstraintViolation), e, s)
             else (None, e\<lparr>ID := entries_seq s + 1\<rparr>,
                   s\<lparr>entries := entries s @ [entryRow (entries_seq s + 1) e],
                     entries_seq := entries_seq s + 1\<rparr>))
      else
        (case fault of
           Some msg \<Rightarrow> (Some (DriverError msg), e, s)
         | None \<Rightarrow>
             if ID e \<in> set (map row_id (entries s)) \<and>
                (FeedID e, GUID e) \<in>
                  set (map row_key (filter (\<lambda>r. row_id r \<noteq> ID e) (entries s)))
             then (Some ConstraintViolation, e, s)
             else (None, e,
                   s\<lparr>entries :=
                       map (\<lambda>r. if row_id r = ID e then entryRow (ID e) e else r) (entries s)\<rparr>)))"

definition scanRow :: "Row \<Rightarrow> Entry" where
  \<comment> \<open>\<open>rows.Scan\<close> and the conversions after it in \<open>GetEntries\<close>\<close>
  "scanRow r =
     \<lparr>ID = row_id r, FeedID = row_feed_id r, GUID = row_guid r, Title = row_title r,
      Link = row_link r, Content = row_content r, Published = unixToTime (row_published r),
      IsRead = intToBool (row_is_read r), Tags = []\<rparr>"

definition GetEntries :: "string option \<Rightarrow> QueryOptions \<Rightarrow> Store \<Rightarrow> error + Entry list" where
  \<comment> \<open>rows with equal \<open>published\<close> come in insertion order here; SQL leaves their order
      open. SQLite has no \<open>OFFSET\<close> without \<open>LIMIT\<close>: that query is a syntax error.\<close>
  "GetEntries fault opts s =
     (case fault of
        Some msg \<Rightarrow> Inl (Wrapped ''failed to query entries'' (DriverError msg))
      | None \<Rightarrow>
          if \<not> Limit opts > 0 \<and> Offset opts > 0
          then Inl (Wrapped ''failed to query entries'' (DriverError ''near OFFSET: syntax error''))
          else
            (let rows = filter (\<lambda>r. if UnreadOnly opts then row_is_read r = 0 else True)
                          (entries s);
                 rows = (case SinceTime opts of
                           None \<Rightarrow> rows
                         | Some t \<Rightarrow> filter (\<lambda>r. row_published r \<ge> t) rows);
                 rows = sort_key (\<lambda>r. - row_published r) rows;
                 rows = (if Offset opts > 0 then drop (nat (Offset opts)) rows else rows);
                 rows = (if Limit opts > 0 then take (nat (Limit opts)) rows else rows)
             in Inr (map scanRow rows)))"

definition MarkEntryRead :: "string option \<Rightarrow> int \<Rightarrow> bool \<Rightarrow> Store \<Rightarrow> error option \<times> Store" where
  \<comment> \<open>an \<open>UPDATE\<close> that matches no row is not an error\<close>
  "MarkEntryRead fault i isRead s =
     (case fault of
        Some msg \<Rightarrow> (Some (DriverError msg), s)
      | None \<Rightarrow>
          (None, s\<lparr>entries :=
                     map (\<lambda>r. if row_id r = i then r\<lparr>row_is_read := boolToInt isRead\<rparr> else r)
                       (entries s)\<rparr>))"

section \<open>cmd/feed-cli/main.go: updateFeeds\<close>

text \<open>
  \<open>updateFeeds\<close> starts one goroutine per feed of the working set and waits for all of
  them. The goroutines run interleaved, so the model is a step function on a shared
  state: one step is what one goroutine does between two points where another one can
  run and see a difference. These are the send on the buffered channel \<open>sem\<close> (which
  blocks while the channel holds 50 values), the call of \<open>fetcher.Fetch\<close>, one call of
  \<open>SaveEntry\<close> (one SQL statement), a section under the mutex \<open>mu\<close>, and the deferred
  receive from \<open>sem\<close> (which blocks while the channel is empty) followed by \<open>wg.Done()\<close>.
  A step of a goroutine that is blocked changes nothing. A schedule is the list of the steps
  taken, each with the goroutine that moves and with what the database driver does if
  the step reaches it. Every theorem about a run holds for every schedule.
\<close>

datatype task =
    Waiting \<comment> \<open>started, before \<open>sem <- struct{}{}\<close>\<close>
  | Holding \<comment> \<open>holds a slot of \<open>sem\<close>, before \<open>fetcher.Fetch\<close>\<close>
  | FetchFailed error \<comment> \<open>\<open>Fetch\<close> returned an error, before \<open>mu.Lock()\<close>\<close>
  | Saving "Entry list" nat nat \<comment> \<open>in the loop: \<open>entries\<close>, index of the next one, \<open>newEntries\<close>\<close>
  | Releasing \<comment> \<open>after \<open>mu.Unlock()\<close>, the deferred calls pending\<close>
  | Finished \<comment> \<open>after \<open>wg.Done()\<close>\<close>

datatype feed_result =
    Counts nat nat \<comment> \<open>\<open>new_entries\<close> and \<open>total_entries\<close>\<close>
  | Failed error \<comment> \<open>\<open>error\<close>\<close>

record world =
  feedsToUpdate :: "Feed list" \<comment> \<open>the working set\<close>
  ParseURL :: "nat \<Rightarrow> string \<Rightarrow> error + gofeed_Feed"
    \<comment> \<open>what the network answers to the fetch made by goroutine \<open>i\<close>\<close>
  Now :: "nat \<Rightarrow> nat \<Rightarrow> time"
    \<comment> \<open>the clock while goroutine \<open>i\<close> converts item \<open>k\<close>\<close>

record sync_state =
  tasks :: "task list"
  sem :: nat \<comment> \<open>number of values in the channel \<open>sem\<close>\<close>
  db :: Store
  results :: "string \<rightharpoonup> feed_result"
  totalNewEntries :: nat

type_synonym event = "nat \<times> string option"

definition semCapacity :: nat where
  "semCapacity = 50"

definition fetchOf :: "world \<Rightarrow> nat \<Rightarrow> error + Feed \<times> Entry list" where
  \<comment> \<open>\<open>fetcher.Fetch(feedToUpdate.URL)\<close> in goroutine \<open>i\<close>\<close>
  "fetchOf w i = Fetch (ParseURL w i) (Now w i) (feed_URL (feedsToUpdate w ! i))"

definition init :: "world \<Rightarrow> Store \<Rightarrow> sync_state" where
  "init w s0 =
     \<lparr>tasks = replicate (length (feedsToUpdate w)) Waiting, sem = 0, db = s0,
      results = Map.empty, totalNewEntries = 0\<rparr>"

definition step :: "world \<Rightarrow> event \<Rightarrow> sync_state \<Rightarrow> sync_state" where
  "step w ev s =
     (let i = fst ev; fault = snd ev; feedToUpdate = feedsToUpdate w ! i
      in if \<not> i < length (tasks s) then s
         else case tasks s ! i of
           Waiting \<Rightarrow>
             if sem s < semCapacity
             then s\<lparr>tasks := (tasks s)[i := Holding], sem := sem s + 1\<rparr>
             else s
         | Holding \<Rightarrow>
             (case fetchOf w i of
                Inl err \<Rightarrow> s\<lparr>tasks := (tasks s)[i := FetchFailed err]\<rparr>
              | Inr (f, es) \<Rightarrow> s\<lparr>tasks := (tasks s)[i := Saving es 0 0]\<rparr>)
         | FetchFailed err \<Rightarrow>
             s\<lparr>tasks := (tasks s)[i := Releasing],
               results := (results s)(feed_URL feedToUpdate \<mapsto> Failed err)\<rparr>
         | Saving es k newEntries \<Rightarrow>
             if k < length es then
               (case SaveEntry fault ((es ! k)\<lparr>FeedID := feed_ID feedToUpdate\<rparr>) (db s) of
                  (err, entry, db') \<Rightarrow>
                    s\<lparr>tasks := (tasks s)[i := Saving (es[k := entry]) (k + 1)
                                   (if err = None then newEntries + 1 else newEntries)],
                      db := db'\<rparr>)
             else
               s\<lparr>tasks := (tasks s)[i := Releasing],
                 totalNewEntries := totalNewEntries s + newEntries,
                 results := (results s)(feed_URL feedToUpdate \<mapsto> Counts newEntries (length es))\<rparr>
         | Releasing \<Rightarrow>
             if 0 < sem s
             then s\<lparr>tasks := (tasks s)[i := Finished], sem := sem s - 1\<rparr>
             else s
         | Finished \<Rightarrow> s)"

definition run :: "world \<Rightarrow> event list \<Rightarrow> sync_state \<Rightarrow> sync_state" where
  "run w sched s = foldl (\<lambda>s ev. step w ev s) s sched"

definition wgDone :: "sync_state \<Rightarrow> bool" where
  \<comment> \<open>\<open>wg.Wait()\<close> returns: every goroutine has called \<open>wg.Done()\<close>\<close>
  "wgDone s = list_all (\<lambda>t. t = Finished) (tasks s)"

record report =
  updated_feeds :: nat
  total_new_entries :: nat
  report_results :: "string \<rightharpoonup> feed_result"

definition updateFeeds :: "world \<Rightarrow> event list \<Rightarrow> Store \<Rightarrow> report option" where
  \<comment> \<open>the value handed to \<open>outputJSON\<close> once \<open>wg.Wait()\<close> has returned; \<open>None\<close> for a
      schedule that stops before that\<close>
  "updateFeeds w sched s0 =
     (let s = run w sched (init w s0)
      in if wgDone s
         then Some \<lparr>updated_feeds = length (feedsToUpdate w),
                    total_new_entries = totalNewEntries s, report_results = results s\<rparr>
         else None)"

definition fetchedLen :: "world \<Rightarrow> nat \<Rightarrow> nat" where
  "fetchedLen w i = (case fetchOf w i of Inl err \<Rightarrow> 0 | Inr (f, es) \<Rightarrow> length es)"

definition soloSched :: "world \<Rightarrow> nat \<Rightarrow> event list" where
  \<comment> \<open>goroutine \<open>i\<close> from its start to its end with nothing in between: send, fetch, one
      save per entry, report, receive\<close>
  "soloSched w i = replicate (4 + fetchedLen w i) (i, None)"

definition seqSched :: "world \<Rightarrow> event list" where
  \<comment> \<open>the goroutines one after the other\<close>
  "seqSched w = concat (map (soloSched w) [0..<length (feedsToUpdate w)])"

subsection \<open>Observations on a run\<close>

definition holdsSlot :: "task \<Rightarrow> bool" where
  \<comment> \<open>between the send on \<open>sem\<close> and the deferred receive\<close>
  "holdsSlot t = (t \<noteq> Waiting \<and> t \<noteq> Finished)"

definition inFlight :: "sync_state \<Rightarrow> nat" where
  "inFlight s = length (filter holdsSlot (tasks s))"




definition newOf :: "feed_result option \<Rightarrow> nat" where
  \<comment> \<open>the \<open>new_entries\<close> of a success entry; nothing for an error entry or no entry\<close>
  "newOf r = (case r of Some (Counts n t) \<Rightarrow> n | _ \<Rightarrow> 0)"

definition resultFor :: "world \<Rightarrow> nat \<Rightarrow> nat \<Rightarrow> feed_result" where
  \<comment> \<open>the entry for source \<open>i\<close> given its fetch and the number of its new entries\<close>
  "resultFor w i n =
     (case fetchOf w i of Inl err \<Rightarrow> Failed err | Inr (f, es) \<Rightarrow> Counts n (length es))"

definition reported :: "world \<Rightarrow> nat \<Rightarrow> feed_result option \<Rightarrow> bool" where
  \<comment> \<open>the entry is there and is the one the fetch of source \<open>i\<close> calls for\<close>
  "reported w i r =
     (case r of
        None \<Rightarrow> False
      | Some (Failed err) \<Rightarrow> fetchOf w i = Inl err
      | Some (Counts n t) \<Rightarrow>
          n \<le> t \<and> (case fetchOf w i of Inl err \<Rightarrow> False | Inr (f, es) \<Rightarrow> t = length es))"

definition taskOk :: "world \<Rightarrow> nat \<Rightarrow> task \<Rightarrow> feed_result option \<Rightarrow> bool" where
  \<comment> \<open>what holds of goroutine \<open>i\<close> in state \<open>t\<close> and of the entry \<open>r\<close> under its URL\<close>
  "taskOk w i t r =
     (case t of
        Waiting \<Rightarrow> r = None
      | Holding \<Rightarrow> r = None
      | FetchFailed err \<Rightarrow> r = None \<and> fetchOf w i = Inl err
      | Saving es k n \<Rightarrow>
          r = None \<and> n \<le> k \<and> k \<le> length es \<and>
          (case fetchOf w i of Inl err \<Rightarrow> False | Inr (f, es0) \<Rightarrow> length es = length es0)
      | Releasing \<Rightarrow> reported w i r
      | Finished \<Rightarrow> reported w i r)"

definition urlOf :: "world \<Rightarrow> nat \<Rightarrow> string" where
  "urlOf w i = feed_URL (feedsToUpdate w ! i)"

definition syncInv :: "world \<Rightarrow> sync_state \<Rightarrow> bool" where
  "syncInv w s =
     (length (tasks s) = length (feedsToUpdate w) \<and>
      (\<forall>i < length (feedsToUpdate w). taskOk w i (tasks s ! i) (results s (urlOf w i))) \<and>
      dom (results s) \<subseteq> set (map feed_URL (feedsToUpdate w)) \<and>
      totalNewEntries s =
        sum_list (map (\<lambda>f. newOf (results s (feed_URL f))) (feedsToUpdate w)))"














section \<open>cmd/feed-cli/main.go: markRead and markAllRead\<close>

text \<open>
  \<open>getStore\<close> opens the database file; its outcome is an argument of a command. The
  driver's behaviour in the \<open>k\<close>-th pass of a loop is \<open>faults k\<close>. A command fails with a
  \<open>cli.Exit\<close>, or with a plain error, which \<open>main\<close> prints before it exits with
  \<open>ExitGeneralError\<close>. \<open>markRead\<close> ends in \<open>return outputJSON(...)\<close>: what the encoder
  returns when it writes to the standard output is an argument, \<open>None\<close> for \<open>nil\<close>, and a
  failure there is the failure of the command. The result of \<open>markAllRead\<close> is the value
  it hands to \<open>outputJSON\<close>, together with the store it leaves.
\<close>

datatype exit =
    Exit error nat \<comment> \<open>\<open>cli.Exit\<close>: what is printed, and the exit status\<close>
  | Plain error \<comment> \<open>an error that is no \<open>cli.Exit\<close>: \<open>main\<close> exits with \<open>ExitGeneralError\<close>\<close>

definition ExitDataError :: nat where "ExitDataError = 3"





fun markAllRead_loop :: "(nat \<Rightarrow> string option) \<Rightarrow> nat \<Rightarrow> Entry list \<Rightarrow> Store \<Rightarrow> Store" where
  \<comment> \<open>the loop over the snapshot from position \<open>k\<close> on; the error of each call is dropped\<close>
  "markAllRead_loop faults k [] s = s"
| "markAllRead_loop faults k (entry # rest) s =
     markAllRead_loop faults (k + 1) rest (snd (MarkEntryRead (faults k) (ID entry) True s))"

definition unreadOnly :: QueryOptions where
  \<comment> \<open>\<open>store.QueryOptions{UnreadOnly: true}\<close>, the other fields zero\<close>
  "unreadOnly = \<lparr>Limit = 0, Offset = 0, UnreadOnly = True, Tag = [], SinceTime = None\<rparr>"

definition markAllRead ::
  "string option \<Rightarrow> (nat \<Rightarrow> string option) \<Rightarrow> error + Store \<Rightarrow> exit + nat \<times> Store" where
  \<comment> \<open>the first argument is the driver's behaviour in \<open>GetEntries\<close>\<close>
  "markAllRead qfault faults opened =
     (case opened of
        Inl err \<Rightarrow> Inl (Exit err ExitDataError)
      | Inr s \<Rightarrow>
          (case GetEntries qfault unreadOnly s of
             Inl err \<Rightarrow> Inl (Exit (Wrapped ''Failed to get entries'' err) ExitDataError)
           | Inr es \<Rightarrow> Inr (length es, markAllRead_loop faults 0 es s)))"

definition unreadCount :: "Store \<Rightarrow> nat" where
  "unreadCount s = length (filter (\<lambda>r. row_is_read r = 0) (entries s))"

definition changedCount :: "Store \<Rightarrow> Store \<Rightarrow> nat" where
  \<comment> \<open>the rows whose read flag differs between two states of the table\<close>
  "changedCount s s' =
     length (filter (\<lambda>(r, r'). intToBool (row_is_read r) \<noteq> intToBool (row_is_read r'))
               (zip (entries s) (entries s')))"

fun markedEntries :: "(nat \<Rightarrow> string option) \<Rightarrow> nat \<Rightarrow> Entry list \<Rightarrow> Entry list" where
  \<comment> \<open>the entries of a snapshot whose \<open>MarkEntryRead\<close> call returned \<open>nil\<close>\<close>
  "markedEntries faults k [] = []"
| "markedEntries faults k (e # es) =
     (if faults k = None then [e] else []) @ markedEntries faults (k + 1) es"


section \<open>A working set for the examples\<close>

text \<open>
  Three sources. The first answers with three items, two of them with the same GUID,
  the second cannot be reached, the third answers with one item that has no GUID.
\<close>

definition exFeed :: "int \<Rightarrow> string \<Rightarrow> Feed" where
  "exFeed i url =
     \<lparr>feed_ID = i, feed_URL = url, feed_Title = [], feed_Category = [],
      feed_LastUpdated = None, feed_ETag = [], feed_LastModified = []\<rparr>"

definition exItem :: "string \<Rightarrow> string \<Rightarrow> Item" where
  "exItem g l =
     \<lparr>item_GUID = g, item_Title = ''title'', item_Link = l, item_Content = [],
      item_Description = ''text'', PublishedParsed = None, UpdatedParsed = None\<rparr>"

definition exWorld :: world where
  "exWorld =
     \<lparr>feedsToUpdate =
        [exFeed 1 ''https://a/rss'', exFeed 2 ''https://b/rss'', exFeed 3 ''https://c/rss''],
      ParseURL = (\<lambda>i url.
        if url = ''https://a/rss'' then
          Inr \<lparr>gf_Title = ''A'', gf_Link = ''https://a'',
               gf_Items = [exItem ''a1'' ''https://a/1'', exItem ''a1'' ''https://a/1'',
                           exItem ''a2'' ''https://a/2'']\<rparr>
        else if url = ''https://c/rss'' then
          Inr \<lparr>gf_Title = ''C'', gf_Link = ''https://c'',
               gf_Items = [exItem [] ''https://c/1'']\<rparr>
        else Inl (TransportFailure ''connection refused'')),
      Now = (\<lambda>i k. 1700000000000000000)\<rparr>"

definition exSched :: "event list" where
  \<comment> \<open>the three goroutines interleaved; the driver fails in the third save of the first\<close>
  "exSched =
     [(0, None), (1, None), (2, None), (1, None), (0, None), (2, None), (1, None),
      (0, None), (2, None), (0, None), (0, Some ''disk I/O error''), (0, None), (2, None),
      (1, None), (0, None), (2, None)]"



definition exRow :: "int \<Rightarrow> string \<Rightarrow> int \<Rightarrow> int \<Rightarrow> Row" where
  "exRow i g p r =
     \<lparr>row_id = i, row_feed_id = 1, row_guid = g, row_title = ''title'', row_link = [],
      row_content = [], row_published = p, row_is_read = r\<rparr>"

definition exStore :: Store where
  \<comment> \<open>four rows, three of them unread\<close>
  "exStore =
     \<lparr>entries = [exRow 1 ''g1'' 100 0, exRow 2 ''g2'' 300 1, exRow 3 ''g3'' 200 0,
                 exRow 4 ''g4'' 400 0],
      entries_seq = 4\<rparr>"


definition driverFailsOnce :: "nat \<Rightarrow> string option" where
  \<comment> \<open>a driver that fails in the second pass of a loop\<close>
  "driverFailsOnce k = (if k = 1 then Some ''database is locked'' else None)"



section \<open>The recency shorthand and the query options\<close>

lemma durationPattern_shorthand:
  "ds \<noteq> [] \<Longrightarrow> list_all isDigit ds \<Longrightarrow> u \<in> set ''dwmy'' \<Longrightarrow>
   durationPattern (ds @ [u]) = Some (ds, [u])"
  by (simp add: durationPattern_def)

lemma shorthand_iff: "shorthand s \<longleftrightarrow> durationPattern s \<noteq> None"
proof
  assume "shorthand s"
  then obtain ds u where "s = ds @ [u]" "ds \<noteq> []" "list_all isDigit ds" "u \<in> set ''dwmy''"
    unfolding shorthand_def by blast
  then show "durationPattern s \<noteq> None"
    by (simp add: durationPattern_shorthand)
next
  assume a: "durationPattern s \<noteq> None"
  then have ne: "s \<noteq> []" by (auto simp: durationPattern_def)
  from a ne have "butlast s \<noteq> [] \<and> list_all isDigit (butlast s) \<and> last s \<in> set ''dwmy''"
    by (auto simp: durationPattern_def split: if_splits)
  moreover from ne have "s = butlast s @ [last s]" by simp
  ultimately show "shorthand s" unfolding shorthand_def by blast
qed

lemma isDigit_not_sign: "isDigit c \<Longrightarrow> c \<noteq> CHR ''-'' \<and> c \<noteq> CHR ''+''"
  by (auto simp: isDigit_def)

lemma Atoi_digits:
  assumes "ds \<noteq> []" "list_all isDigit ds"
  shows "Atoi ds = (if int (decimal ds) > 2 ^ 63 - 1 then Inl (RangeError ds)
                    else Inr (int (decimal ds)))"
proof -
  from assms have "isDigit (hd ds)" by (cases ds) auto
  then have "hd ds \<noteq> CHR ''-''" "hd ds \<noteq> CHR ''+''" using isDigit_not_sign by blast+
  with assms show ?thesis by (simp add: Atoi_def)
qed

lemma sint_word_of_int_64:
  "- (2 ^ 63) \<le> x \<Longrightarrow> x < 2 ^ 63 \<Longrightarrow> sint (word_of_int x :: 64 word) = x"
  by (simp add: sint_sbintrunc' signed_take_bit_int_eq_self)

lemma sint_duration:
  assumes "0 \<le> n" "n * k * dayNanos < 2 ^ 63" "0 \<le> k"
  shows "sint (word_of_int n * word_of_int k * 24 * Hour :: Duration) = n * k * dayNanos"
proof -
  have eq: "(word_of_int n * word_of_int k * 24 * Hour :: Duration) = word_of_int (n * k * dayNanos)"
    by (simp add: Hour_def dayNanos_def)
  have "0 \<le> n * k * dayNanos" using assms by (simp add: dayNanos_def)
  moreover have "- (2 ^ 63) \<le> (0::int)" by simp
  ultimately have "- (2 ^ 63) \<le> n * k * dayNanos" by (rule order_trans [rotated])
  then have "sint (word_of_int (n * k * dayNanos) :: Duration) = n * k * dayNanos"
    using assms(2) by (rule sint_word_of_int_64)
  then show ?thesis by (simp only: eq)
qed

lemma unitDays_cases:
  "u \<in> set ''dwmy'' \<Longrightarrow> u = CHR ''d'' \<or> u = CHR ''w'' \<or> u = CHR ''m'' \<or> u = CHR ''y''"
  by auto

lemma ParseDuration_in_range:
  assumes "ds \<noteq> []" "list_all isDigit ds" "u \<in> set ''dwmy''"
    and "int (decimal ds) * unitDays u * dayNanos < 2 ^ 63"
  shows "\<exists>d. ParseDuration (ds @ [u]) = Inr d \<and> sint d = int (decimal ds) * unitDays u * dayNanos"
proof -
  have pos: "1 \<le> unitDays u" using assms(3) by (auto simp: unitDays_def)
  have "1 \<le> unitDays u * dayNanos" using pos by (simp add: dayNanos_def)
  then have "int (decimal ds) * 1 \<le> int (decimal ds) * (unitDays u * dayNanos)"
    by (intro mult_left_mono) simp_all
  with assms(4) have "int (decimal ds) < 2 ^ 63" by (simp add: mult.assoc)
  then have at: "Atoi ds = Inr (int (decimal ds))"
    using assms(1,2) by (simp add: Atoi_digits)
  have pd: "ParseDuration (ds @ [u]) =
      Inr (word_of_int (int (decimal ds)) * word_of_int (unitDays u) * 24 * Hour)"
    using unitDays_cases [OF assms(3)] assms(1,2) at
    by (auto simp: ParseDuration_def durationPattern_shorthand unitDays_def)
  have "sint (word_of_int (int (decimal ds)) * word_of_int (unitDays u) * 24 * Hour :: Duration)
      = int (decimal ds) * unitDays u * dayNanos"
    using assms(4) pos by (intro sint_duration) simp_all
  with pd show ?thesis by blast
qed

lemma ParseDuration_out_of_range:
  assumes "ds \<noteq> []" "list_all isDigit ds" "u \<in> set ''dwmy''"
    and "2 ^ 63 \<le> int (decimal ds)"
  shows "ParseDuration (ds @ [u]) = Inl (InvalidDurationNumber ds)"
proof -
  have "Atoi ds = Inl (RangeError ds)"
    using assms by (simp add: Atoi_digits)
  then show ?thesis
    using assms(1,2,3) by (simp add: ParseDuration_def durationPattern_shorthand)
qed

lemma ParseDuration_not_shorthand:
  assumes "\<not> shorthand s"
  shows "isl (ParseDuration s)"
proof -
  from assms have "durationPattern s = None"
    by (cases "durationPattern s") (simp_all add: shorthand_iff)
  then show ?thesis by (simp add: ParseDuration_def)
qed

text \<open>
  Claim C5, as the code has it. \<open>ParseDuration\<close> maps a string \<open><digits><unit>\<close> with unit
  d, w, m or y to the duration of \<open>n\<close>, \<open>7n\<close>, \<open>30n\<close> or \<open>365n\<close> days, provided that duration
  is below \<open>2^63\<close> nanoseconds, the range of \<open>time.Duration\<close>. It returns an error for a
  number of \<open>2^63\<close> or more, which \<open>strconv.Atoi\<close> rejects, and for every string that is not
  of the shape \<open><digits><unit>\<close>: no number, no unit, an unknown unit, a sign, the empty
  string.
\<close>

theorem ParseDuration_shorthand:
  "(ds \<noteq> [] \<and> list_all isDigit ds \<and> u \<in> set ''dwmy'' \<and>
      int (decimal ds) * unitDays u * dayNanos < 2 ^ 63 \<longrightarrow>
      (\<exists>d. ParseDuration (ds @ [u]) = Inr d \<and>
           sint d = int (decimal ds) * unitDays u * dayNanos))
   \<and> (ds' \<noteq> [] \<and> list_all isDigit ds' \<and> u' \<in> set ''dwmy'' \<and> 2 ^ 63 \<le> int (decimal ds') \<longrightarrow>
      ParseDuration (ds' @ [u']) = Inl (InvalidDurationNumber ds'))
   \<and> (\<not> shorthand s \<longrightarrow> isl (ParseDuration s))"
  using ParseDuration_in_range ParseDuration_out_of_range ParseDuration_not_shorthand
  by blast

lemmas pd_eval = ParseDuration_def durationPattern_def isDigit_def Atoi_def decimal_def digitVal_def

text \<open>The examples of the specification and of \<open>TestParseDuration\<close>.\<close>

theorem ParseDuration_examples:
  "ParseDuration ''7d'' = Inr (7 * 24 * Hour) \<and> ParseDuration ''2w'' = Inr (14 * 24 * Hour)
   \<and> ParseDuration ''3m'' = Inr (90 * 24 * Hour) \<and> ParseDuration ''1y'' = Inr (365 * 24 * Hour)
   \<and> isl (ParseDuration ''7x'') \<and> isl (ParseDuration ''d'') \<and> isl (ParseDuration ''7'')
   \<and> isl (ParseDuration '''') \<and> isl (ParseDuration ''-7d'')"
  by (simp add: pd_eval)

theorem ParseDuration_shorthand_witness:
  "(\<exists>d. ParseDuration ''7d'' = Inr d \<and> sint d = 7 * 24 * 3600000000000)
   \<and> ParseDuration ''9223372036854775808y'' = Inl (InvalidDurationNumber ''9223372036854775808'')
   \<and> \<not> shorthand ''-7d'' \<and> isl (ParseDuration ''-7d'')"
proof -
  have h1: "''7'' \<noteq> [] \<and> list_all isDigit ''7'' \<and> CHR ''d'' \<in> set ''dwmy'' \<and>
      int (decimal ''7'') * unitDays CHR ''d'' * dayNanos < 2 ^ 63"
    by (simp add: isDigit_def decimal_def digitVal_def unitDays_def dayNanos_def)
  have h2: "''9223372036854775808'' \<noteq> [] \<and> list_all isDigit ''9223372036854775808'' \<and>
      CHR ''y'' \<in> set ''dwmy'' \<and> 2 ^ 63 \<le> int (decimal ''9223372036854775808'')"
    by (simp add: isDigit_def decimal_def digitVal_def)
  have h3: "\<not> shorthand ''-7d''"
    by (simp add: shorthand_iff durationPattern_def isDigit_def)
  have v: "int (decimal ''7'') * unitDays CHR ''d'' * dayNanos = 7 * 24 * 3600000000000"
    by (simp add: decimal_def digitVal_def unitDays_def dayNanos_def)
  show ?thesis
    using ParseDuration_shorthand [of "''7''" "CHR ''d''" "''9223372036854775808''" "CHR ''y''" "''-7d''"]
      h1 h2 h3 v by simp
qed

text \<open>
  The claim as first stated, every \<open><digits><unit>\<close> string to \<open>n\<close> times the unit, fails on
  large numbers: twenty nines are more than an \<open>int\<close> holds and give an error, and 200000
  days are more than a \<open>time.Duration\<close> holds and come out negative.
\<close>

theorem ParseDuration_counterexample:
  "ParseDuration ''99999999999999999999d'' = Inl (InvalidDurationNumber ''99999999999999999999'')
   \<and> sint (projr (ParseDuration ''200000d'')) = - 1166744073709551616"
  by (simp add: pd_eval Hour_def)


lemma sint_neg_duration:
  assumes "sint (d :: Duration) = x" "0 \<le> x"
  shows "sint (- d) = - x"
proof -
  have "d = word_of_int (sint d)" by simp
  then have "d = word_of_int x" by (simp only: assms(1))
  then have "- d = word_of_int (- x)" by simp
  moreover have "x < 2 ^ 63" using assms(1) sint_lt [of d] by simp
  then have "- (2 ^ 63) \<le> - x" "- x < 2 ^ 63" using assms(2) by simp_all
  ultimately show ?thesis by (simp only: sint_word_of_int_64)
qed

lemma Unix_Add_days:
  "Unix (now - x * dayNanos) = Unix now - x * 86400"
proof -
  have "now - x * dayNanos = now + (- (x * 86400)) * 1000000000"
    by (simp add: dayNanos_def)
  then show ?thesis
    unfolding Unix_def by (simp only: div_mult_self1 [of 1000000000 now "- (x * 86400)"]) 
qed

text \<open>
  Claim C6. With an empty \<open>since\<close>, \<open>BuildQueryOptions\<close> succeeds and \<open>SinceTime\<close> is absent.
  With a non-empty \<open>since\<close> that \<open>ParseDuration\<close> accepts with duration \<open>d\<close>, it succeeds and
  \<open>SinceTime\<close> is \<open>now.Add(-d).Unix()\<close>, for the clock reading \<open>now\<close> of the call; for a
  shorthand \<open><digits><unit>\<close> within the range of \<open>time.Duration\<close> that is the second of
  \<open>now\<close> minus \<open>86400\<close> seconds for each day of the shorthand. \<open>Limit\<close>, \<open>Offset\<close>,
  \<open>UnreadOnly\<close> and \<open>Tag\<close> are the arguments, unchanged.
\<close>

theorem BuildQueryOptions_since:
  "BuildQueryOptions now limit offset unread [] tag =
     Inr \<lparr>Limit = limit, Offset = offset, UnreadOnly = unread, Tag = tag, SinceTime = None\<rparr>
   \<and> (since \<noteq> [] \<and> ParseDuration since = Inr d \<longrightarrow>
        BuildQueryOptions now limit offset unread since tag =
          Inr \<lparr>Limit = limit, Offset = offset, UnreadOnly = unread, Tag = tag,
               SinceTime = Some (Unix (Add now (- d)))\<rparr>)
   \<and> (ds \<noteq> [] \<and> list_all isDigit ds \<and> u \<in> set ''dwmy'' \<and>
        int (decimal ds) * unitDays u * dayNanos < 2 ^ 63 \<longrightarrow>
        BuildQueryOptions now limit offset unread (ds @ [u]) tag =
          Inr \<lparr>Limit = limit, Offset = offset, UnreadOnly = unread, Tag = tag,
               SinceTime = Some (Unix now - int (decimal ds) * unitDays u * 86400)\<rparr>)"
proof (intro conjI impI)
  show "BuildQueryOptions now limit offset unread [] tag =
     Inr \<lparr>Limit = limit, Offset = offset, UnreadOnly = unread, Tag = tag, SinceTime = None\<rparr>"
    by (simp add: BuildQueryOptions_def)
next
  assume "since \<noteq> [] \<and> ParseDuration since = Inr d"
  then show "BuildQueryOptions now limit offset unread since tag =
          Inr \<lparr>Limit = limit, Offset = offset, UnreadOnly = unread, Tag = tag,
               SinceTime = Some (Unix (Add now (- d)))\<rparr>"
    by (simp add: BuildQueryOptions_def SinceToUnixTime_def)
next
  assume a: "ds \<noteq> [] \<and> list_all isDigit ds \<and> u \<in> set ''dwmy'' \<and>
        int (decimal ds) * unitDays u * dayNanos < 2 ^ 63"
  then obtain d where d: "ParseDuration (ds @ [u]) = Inr d"
      "sint d = int (decimal ds) * unitDays u * dayNanos"
    using ParseDuration_in_range by blast
  have "0 \<le> unitDays u" by (simp add: unitDays_def)
  then have "0 \<le> int (decimal ds) * unitDays u * dayNanos" by (simp add: dayNanos_def)
  with d(2) have "sint (- d) = - (int (decimal ds) * unitDays u * dayNanos)"
    by (rule sint_neg_duration)
  then have "Unix (Add now (- d)) = Unix now - int (decimal ds) * unitDays u * 86400"
    using Unix_Add_days [of now "int (decimal ds) * unitDays u"] by (simp add: Add_def)
  with d(1) show "BuildQueryOptions now limit offset unread (ds @ [u]) tag =
          Inr \<lparr>Limit = limit, Offset = offset, UnreadOnly = unread, Tag = tag,
               SinceTime = Some (Unix now - int (decimal ds) * unitDays u * 86400)\<rparr>"
    by (simp add: BuildQueryOptions_def SinceToUnixTime_def)
qed

theorem BuildQueryOptions_since_witness:
  "BuildQueryOptions 1700000000123456789 10 40 True ''2w'' ''rust'' =
     Inr \<lparr>Limit = 10, Offset = 40, UnreadOnly = True, Tag = ''rust'',
          SinceTime = Some (1700000000 - 14 * 86400)\<rparr>
   \<and> BuildQueryOptions 1700000000123456789 10 40 True ''2w'' ''rust'' =
     Inr \<lparr>Limit = 10, Offset = 40, UnreadOnly = True, Tag = ''rust'',
          SinceTime = Some (Unix (Add 1700000000123456789 (- (14 * 24 * Hour))))\<rparr>
   \<and> ParseDuration ''2w'' = Inr (14 * 24 * Hour)"
proof -
  have h2: "''2w'' \<noteq> [] \<and> ParseDuration ''2w'' = Inr (14 * 24 * Hour)"
    by (simp add: pd_eval)
  have h3: "''2'' \<noteq> [] \<and> list_all isDigit ''2'' \<and> CHR ''w'' \<in> set ''dwmy'' \<and>
      int (decimal ''2'') * unitDays CHR ''w'' * dayNanos < 2 ^ 63"
    by (simp add: isDigit_def decimal_def digitVal_def unitDays_def dayNanos_def)
  have v: "int (decimal ''2'') * unitDays CHR ''w'' = 14"
    by (simp add: decimal_def digitVal_def unitDays_def)
  note inst = BuildQueryOptions_since [of 1700000000123456789 10 40 True "''rust''" "''2w''"
        "14 * 24 * Hour" "''2''" "CHR ''w''"]
  have a: "BuildQueryOptions 1700000000123456789 10 40 True (''2'' @ [CHR ''w'']) ''rust'' =
     Inr \<lparr>Limit = 10, Offset = 40, UnreadOnly = True, Tag = ''rust'',
          SinceTime = Some (Unix 1700000000123456789 -
            int (decimal ''2'') * unitDays CHR ''w'' * 86400)\<rparr>"
    using inst h3 by blast
  have b: "BuildQueryOptions 1700000000123456789 10 40 True ''2w'' ''rust'' =
     Inr \<lparr>Limit = 10, Offset = 40, UnreadOnly = True, Tag = ''rust'',
          SinceTime = Some (Unix (Add 1700000000123456789 (- (14 * 24 * Hour))))\<rparr>"
    using inst h2 by blast
  have a': "BuildQueryOptions 1700000000123456789 10 40 True ''2w'' ''rust'' =
     Inr \<lparr>Limit = 10, Offset = 40, UnreadOnly = True, Tag = ''rust'',
          SinceTime = Some (1700000000 - 14 * 86400)\<rparr>"
    using a by (simp add: v Unix_def)
  show ?thesis by (intro conjI a' b) (simp add: h2)
qed

section \<open>The normalizer\<close>

lemma convertItem_GUID:
  "GUID (convertItem now item) = (if item_GUID item = [] then item_Link item else item_GUID item)"
  by (simp add: convertItem_def Let_def split: option.split)

lemma convertItem_ID: "ID (convertItem now item) = 0"
  by (simp add: convertItem_def Let_def split: option.split)

lemma convertItem_Published:
  "Published (convertItem now item) =
     (case PublishedParsed item of
        Some t \<Rightarrow> t
      | None \<Rightarrow> (case UpdatedParsed item of Some t \<Rightarrow> t | None \<Rightarrow> now))"
  by (simp add: convertItem_def Let_def split: option.split)

lemma convert_entries:
  "snd (convert clock gf url) =
     map (\<lambda>k. convertItem (clock k) (gf_Items gf ! k)) [0..<length (gf_Items gf)]"
proof -
  have "map (\<lambda>(k, item). convertItem (clock k) item) (enumerate 0 xs) =
        map (\<lambda>k. convertItem (clock k) (xs ! k)) [0..<length xs]" for xs
    by (rule nth_equalityI) (simp_all add: nth_enumerate_eq)
  then show ?thesis by (simp add: convert_def Let_def)
qed

lemma SaveEntry_insert_new:
  assumes "ID e = 0" "(FeedID e, GUID e) \<notin> set (map row_key (entries s))"
  shows "SaveEntry None e s =
           (None, e\<lparr>ID := entries_seq s + 1\<rparr>,
            s\<lparr>entries := entries s @ [entryRow (entries_seq s + 1) e],
              entries_seq := entries_seq s + 1\<rparr>)"
  using assms by (simp add: SaveEntry_def)

lemma row_key_entryRow: "row_key (entryRow i e) = (FeedID e, GUID e)"
  by (simp add: row_key_def entryRow_def)

text \<open>
  Claim C7. The entry \<open>convertItem\<close> makes has the item's GUID as its \<open>GUID\<close> when the
  item has one and the item's link otherwise. So two items without GUID and with
  different links get different keys, \<open>convert\<close> keeps every item of the feed, in order,
  and when the two entries are saved for the same feed into a store that holds neither
  key, both inserts succeed and both keys are in the table.
\<close>

theorem convertItem_natural_key:
  "GUID (convertItem now item) =
     (if item_GUID item \<noteq> [] then item_GUID item else item_Link item)
   \<and> map GUID (snd (convert clock gf url)) =
       map (\<lambda>it. if item_GUID it \<noteq> [] then item_GUID it else item_Link it) (gf_Items gf)
   \<and> (item_GUID a = [] \<and> item_GUID b = [] \<and> item_Link a \<noteq> item_Link b \<longrightarrow>
        GUID (convertItem t1 a) = item_Link a \<and> GUID (convertItem t2 b) = item_Link b \<and>
        GUID (convertItem t1 a) \<noteq> GUID (convertItem t2 b) \<and>
        ((fid, item_Link a) \<notin> set (map row_key (entries s)) \<and>
         (fid, item_Link b) \<notin> set (map row_key (entries s)) \<longrightarrow>
         (case SaveEntry None ((convertItem t1 a)\<lparr>FeedID := fid\<rparr>) s of
            (err1, e1, s1) \<Rightarrow>
              (case SaveEntry None ((convertItem t2 b)\<lparr>FeedID := fid\<rparr>) s1 of
                 (err2, e2, s2) \<Rightarrow>
                   err1 = None \<and> err2 = None \<and>
                   (fid, item_Link a) \<in> set (map row_key (entries s2)) \<and>
                   (fid, item_Link b) \<in> set (map row_key (entries s2)) \<and>
                   length (entries s2) = length (entries s) + 2))))"
proof (intro conjI impI)
  show "GUID (convertItem now item) =
     (if item_GUID item \<noteq> [] then item_GUID item else item_Link item)"
    by (simp add: convertItem_GUID)
  show "map GUID (snd (convert clock gf url)) =
       map (\<lambda>it. if item_GUID it \<noteq> [] then item_GUID it else item_Link it) (gf_Items gf)"
    by (rule nth_equalityI) (simp_all add: convert_entries convertItem_GUID)
next
  assume h: "item_GUID a = [] \<and> item_GUID b = [] \<and> item_Link a \<noteq> item_Link b"
  then show "GUID (convertItem t1 a) = item_Link a" "GUID (convertItem t2 b) = item_Link b"
    "GUID (convertItem t1 a) \<noteq> GUID (convertItem t2 b)"
    by (simp_all add: convertItem_GUID)
next
  assume h: "item_GUID a = [] \<and> item_GUID b = [] \<and> item_Link a \<noteq> item_Link b"
    and k: "(fid, item_Link a) \<notin> set (map row_key (entries s)) \<and>
         (fid, item_Link b) \<notin> set (map row_key (entries s))"
  let ?ea = "(convertItem t1 a)\<lparr>FeedID := fid\<rparr>" and ?eb = "(convertItem t2 b)\<lparr>FeedID := fid\<rparr>"
  let ?s1 = "s\<lparr>entries := entries s @ [entryRow (entries_seq s + 1) ?ea],
              entries_seq := entries_seq s + 1\<rparr>"
  have ga: "GUID ?ea = item_Link a" and gb: "GUID ?eb = item_Link b"
    using h by (simp_all add: convertItem_GUID)
  have s1: "SaveEntry None ?ea s = (None, ?ea\<lparr>ID := entries_seq s + 1\<rparr>, ?s1)"
    using k by (intro SaveEntry_insert_new) (simp_all add: convertItem_ID ga)
  have kb: "(FeedID ?eb, GUID ?eb) \<notin> set (map row_key (entries ?s1))"
    using h k by (auto simp: gb row_key_entryRow ga)
  have s2: "SaveEntry None ?eb ?s1 =
      (None, ?eb\<lparr>ID := entries_seq ?s1 + 1\<rparr>,
       ?s1\<lparr>entries := entries ?s1 @ [entryRow (entries_seq ?s1 + 1) ?eb],
           entries_seq := entries_seq ?s1 + 1\<rparr>)"
    using kb by (intro SaveEntry_insert_new) (simp_all add: convertItem_ID)
  show "case SaveEntry None ?ea s of
            (err1, e1, s1) \<Rightarrow>
              (case SaveEntry None ?eb s1 of
                 (err2, e2, s2) \<Rightarrow>
                   err1 = None \<and> err2 = None \<and>
                   (fid, item_Link a) \<in> set (map row_key (entries s2)) \<and>
                   (fid, item_Link b) \<in> set (map row_key (entries s2)) \<and>
                   length (entries s2) = length (entries s) + 2)"
    unfolding s1 prod.case s2 by (simp add: row_key_entryRow ga gb)
qed

theorem convertItem_natural_key_witness:
  "GUID (convertItem 5 (exItem [] ''https://x/1'')) = ''https://x/1''
   \<and> GUID (convertItem 6 (exItem [] ''https://x/2'')) = ''https://x/2''
   \<and> map row_guid (entries (snd (snd (SaveEntry None
        ((convertItem 6 (exItem [] ''https://x/2''))\<lparr>FeedID := 1\<rparr>)
        (snd (snd (SaveEntry None
          ((convertItem 5 (exItem [] ''https://x/1''))\<lparr>FeedID := 1\<rparr>) emptyStore))))))) =
       [''https://x/1'', ''https://x/2'']"
proof -
  let ?a = "exItem [] ''https://x/1''" and ?b = "exItem [] ''https://x/2''"
  let ?ea = "(convertItem 5 ?a)\<lparr>FeedID := 1\<rparr>" and ?eb = "(convertItem 6 ?b)\<lparr>FeedID := 1\<rparr>"
  have h1: "item_GUID ?a = [] \<and> item_GUID ?b = [] \<and> item_Link ?a \<noteq> item_Link ?b"
    by (simp add: exItem_def)
  have h2: "(1, item_Link ?a) \<notin> set (map row_key (entries emptyStore)) \<and>
      (1, item_Link ?b) \<notin> set (map row_key (entries emptyStore))"
    by (simp add: emptyStore_def)
  note inst = convertItem_natural_key [of 0 ?a "\<lambda>k. 0" "\<lparr>gf_Title = [], gf_Link = [], gf_Items = []\<rparr>"
        "[]" ?a ?b 5 6 1 emptyStore]
  have g: "GUID (convertItem 5 ?a) = item_Link ?a \<and> GUID (convertItem 6 ?b) = item_Link ?b"
    using inst h1 by blast
  have "case SaveEntry None ?ea emptyStore of
          (err1, e1, s1) \<Rightarrow>
            (case SaveEntry None ?eb s1 of
               (err2, e2, s2) \<Rightarrow>
                 err1 = None \<and> err2 = None \<and>
                 (1, item_Link ?a) \<in> set (map row_key (entries s2)) \<and>
                 (1, item_Link ?b) \<in> set (map row_key (entries s2)) \<and>
                 length (entries s2) = length (entries emptyStore) + 2)"
    by (rule inst [THEN conjunct2, THEN conjunct2, THEN mp, OF h1,
          THEN conjunct2, THEN conjunct2, THEN conjunct2, THEN mp, OF h2])
  then have "length (entries (snd (snd (SaveEntry None ?eb
      (snd (snd (SaveEntry None ?ea emptyStore))))))) = 2"
    by (simp add: split_beta emptyStore_def)
  moreover have "map row_guid (entries (snd (snd (SaveEntry None ?eb
      (snd (snd (SaveEntry None ?ea emptyStore))))))) = [''https://x/1'', ''https://x/2'']"
    by (simp add: SaveEntry_def convertItem_def exItem_def emptyStore_def entryRow_def row_key_def)
  ultimately show ?thesis using g by (simp add: exItem_def)
qed

text \<open>
  Claim C8. An item with neither a parsed publication date nor a parsed update date
  gets the clock reading of the conversion as its \<open>Published\<close>; an item with a parsed
  publication date keeps it, and one with only a parsed update date gets that one. The
  row saved for the entry carries that instant in whole seconds, so it has its place in
  the order \<open>GetEntries\<close> sorts by.
\<close>

theorem convertItem_published_fallback:
  "(PublishedParsed item = None \<and> UpdatedParsed item = None \<longrightarrow>
      Published (convertItem now item) = now)
   \<and> Published (convertItem now item) =
       (case PublishedParsed item of
          Some t \<Rightarrow> t
        | None \<Rightarrow> (case UpdatedParsed item of Some t \<Rightarrow> t | None \<Rightarrow> now))
   \<and> row_published (entryRow i (convertItem now item)) = Unix (Published (convertItem now item))"
  by (simp add: convertItem_Published entryRow_def)

theorem convertItem_published_fallback_witness:
  "Published (convertItem 1700000000123456789
     \<lparr>item_GUID = ''g'', item_Title = ''A'', item_Link = ''https://x/1'',
      item_Content = [], item_Description = [], PublishedParsed = None,
      UpdatedParsed = None\<rparr>) = 1700000000123456789"
proof -
  let ?a = "\<lparr>item_GUID = ''g'', item_Title = ''A'', item_Link = ''https://x/1'',
      item_Content = [], item_Description = [], PublishedParsed = None,
      UpdatedParsed = None\<rparr>"
  have h: "PublishedParsed ?a = None \<and> UpdatedParsed ?a = None" by simp
  show ?thesis
    using convertItem_published_fallback [of ?a 1700000000123456789 0] h by blast
qed

section \<open>Runs of updateFeeds\<close>

lemma run_Nil: "run w [] s = s"
  by (simp add: run_def)

lemma run_snoc: "run w (sched @ [ev]) s = step w ev (run w sched s)"
  by (simp add: run_def)

lemma run_Cons: "run w (ev # sched) s = run w sched (step w ev s)"
  by (simp add: run_def)

lemma run_append: "run w (xs @ ys) s = run w ys (run w xs s)"
  by (simp add: run_def)

lemma run_invariant:
  assumes "P s" and "\<And>s ev. P s \<Longrightarrow> P (step w ev s)"
  shows "P (run w sched s)"
proof (induction sched rule: rev_induct)
  case Nil
  show ?case using assms(1) by (simp add: run_Nil)
next
  case (snoc ev sched)
  then show ?case by (simp add: run_snoc assms(2))
qed

subsection \<open>One step, by the state of the goroutine that moves\<close>

lemma step_out_of_range: "\<not> i < length (tasks s) \<Longrightarrow> step w (i, fault) s = s"
  by (simp add: step_def)

lemma step_Waiting:
  "i < length (tasks s) \<Longrightarrow> tasks s ! i = Waiting \<Longrightarrow>
   step w (i, fault) s =
     (if sem s < semCapacity then s\<lparr>tasks := (tasks s)[i := Holding], sem := sem s + 1\<rparr> else s)"
  by (simp add: step_def)

lemma step_Holding:
  "i < length (tasks s) \<Longrightarrow> tasks s ! i = Holding \<Longrightarrow>
   step w (i, fault) s =
     (case fetchOf w i of
        Inl err \<Rightarrow> s\<lparr>tasks := (tasks s)[i := FetchFailed err]\<rparr>
      | Inr (f, es) \<Rightarrow> s\<lparr>tasks := (tasks s)[i := Saving es 0 0]\<rparr>)"
  by (simp add: step_def)

lemma step_FetchFailed:
  "i < length (tasks s) \<Longrightarrow> tasks s ! i = FetchFailed err \<Longrightarrow>
   step w (i, fault) s =
     s\<lparr>tasks := (tasks s)[i := Releasing],
       results := (results s)(feed_URL (feedsToUpdate w ! i) \<mapsto> Failed err)\<rparr>"
  by (simp add: step_def)

lemma step_Saving_next:
  "i < length (tasks s) \<Longrightarrow> tasks s ! i = Saving es k n \<Longrightarrow> k < length es \<Longrightarrow>
   SaveEntry fault ((es ! k)\<lparr>FeedID := feed_ID (feedsToUpdate w ! i)\<rparr>) (db s) = (err, entry, db') \<Longrightarrow>
   step w (i, fault) s =
     s\<lparr>tasks := (tasks s)[i := Saving (es[k := entry]) (k + 1) (if err = None then n + 1 else n)],
       db := db'\<rparr>"
  by (simp add: step_def)

lemma step_Saving_end:
  "i < length (tasks s) \<Longrightarrow> tasks s ! i = Saving es k n \<Longrightarrow> \<not> k < length es \<Longrightarrow>
   step w (i, fault) s =
     s\<lparr>tasks := (tasks s)[i := Releasing],
       totalNewEntries := totalNewEntries s + n,
       results := (results s)(feed_URL (feedsToUpdate w ! i) \<mapsto> Counts n (length es))\<rparr>"
  by (simp add: step_def)

lemma step_Releasing:
  "i < length (tasks s) \<Longrightarrow> tasks s ! i = Releasing \<Longrightarrow>
   step w (i, fault) s =
     (if 0 < sem s then s\<lparr>tasks := (tasks s)[i := Finished], sem := sem s - 1\<rparr> else s)"
  by (simp add: step_def)

lemma step_Finished:
  "i < length (tasks s) \<Longrightarrow> tasks s ! i = Finished \<Longrightarrow> step w (i, fault) s = s"
  by (simp add: step_def)




subsection \<open>The admission gate\<close>



lemma inFlight_more [simp]:
  "inFlight (s\<lparr>sem := a\<rparr>) = inFlight s" "inFlight (s\<lparr>db := b\<rparr>) = inFlight s"
  "inFlight (s\<lparr>results := c\<rparr>) = inFlight s" "inFlight (s\<lparr>totalNewEntries := d\<rparr>) = inFlight s"
  by (simp_all add: inFlight_def)






subsection \<open>A schedule that completes\<close>

lemma solo_saving:
  assumes "i < length (tasks s)" "tasks s ! i = Saving es k n" "k \<le> length es"
    and "m = length es - k"
  shows "\<exists>es' n'. tasks (run w (replicate m (i, None)) s) =
            (tasks s)[i := Saving es' (length es) n'] \<and> length es' = length es \<and>
          sem (run w (replicate m (i, None)) s) = sem s"
  using assms
proof (induction m arbitrary: s es k n)
  case 0
  then have "k = length es" by simp
  then have "(tasks s)[i := Saving es (length es) n] = tasks s"
    using 0 list_update_id [of "tasks s" i] by simp
  then show ?case
    by (intro exI [of _ es] exI [of _ n]) (simp add: run_Nil)
next
  case (Suc m)
  then have lt: "k < length es" by simp
  let ?e = "(es ! k)\<lparr>FeedID := feed_ID (feedsToUpdate w ! i)\<rparr>"
  obtain err entry db' where sv: "SaveEntry None ?e (db s) = (err, entry, db')"
    by (cases "SaveEntry None ?e (db s)")
  let ?n1 = "if err = None then n + 1 else n"
  let ?s1 = "s\<lparr>tasks := (tasks s)[i := Saving (es[k := entry]) (k + 1) ?n1], db := db'\<rparr>"
  have st: "step w (i, None) s = ?s1"
    using Suc.prems(1,2) lt sv by (rule step_Saving_next)
  have "\<exists>es' n'. tasks (run w (replicate m (i, None)) ?s1) =
            (tasks ?s1)[i := Saving es' (length (es[k := entry])) n'] \<and>
          length es' = length (es[k := entry]) \<and>
          sem (run w (replicate m (i, None)) ?s1) = sem ?s1"
    using Suc.prems lt by (intro Suc.IH [of ?s1 "es[k := entry]" "k + 1" ?n1]) simp_all
  then show ?case
    by (simp add: run_Cons st)
qed

lemma solo_run:
  assumes i: "i < length (tasks s)" and wt: "tasks s ! i = Waiting" and free: "sem s < semCapacity"
  shows "tasks (run w (soloSched w i) s) = (tasks s)[i := Finished] \<and>
         sem (run w (soloSched w i) s) = sem s"
proof -
  let ?ev = "(i, None) :: event"
  let ?s1 = "s\<lparr>tasks := (tasks s)[i := Holding], sem := sem s + 1\<rparr>"
  have s1: "step w ?ev s = ?s1" using i wt free by (simp add: step_Waiting)
  have i1: "i < length (tasks ?s1)" using i by simp
  show ?thesis
  proof (cases "fetchOf w i")
    case (Inl err)
    let ?s2 = "?s1\<lparr>tasks := (tasks ?s1)[i := FetchFailed err]\<rparr>"
    let ?s3 = "?s2\<lparr>tasks := (tasks ?s2)[i := Releasing],
                    results := (results ?s2)(feed_URL (feedsToUpdate w ! i) \<mapsto> Failed err)\<rparr>"
    have s2: "step w ?ev ?s1 = ?s2" using i Inl by (simp add: step_Holding)
    have s3: "step w ?ev ?s2 = ?s3" using i by (simp add: step_FetchFailed)
    have s4: "step w ?ev ?s3 = ?s3\<lparr>tasks := (tasks ?s3)[i := Finished], sem := sem ?s3 - 1\<rparr>"
      using i by (simp add: step_Releasing)
    have "soloSched w i = [?ev, ?ev, ?ev, ?ev]"
      using Inl by (simp add: soloSched_def fetchedLen_def numeral_eq_Suc)
    then have "run w (soloSched w i) s =
        ?s3\<lparr>tasks := (tasks ?s3)[i := Finished], sem := sem ?s3 - 1\<rparr>"
      by (simp only: run_Cons run_Nil s1 s2 s3 s4)
    then show ?thesis by simp
  next
    case (Inr p)
    obtain f es where p: "p = (f, es)" by (cases p)
    let ?s2 = "?s1\<lparr>tasks := (tasks ?s1)[i := Saving es 0 0]\<rparr>"
    let ?s3 = "run w (replicate (length es) ?ev) ?s2"
    have s2: "step w ?ev ?s1 = ?s2" using i Inr p by (simp add: step_Holding)
    obtain es' n' where s3: "tasks ?s3 = (tasks ?s2)[i := Saving es' (length es) n']"
        "length es' = length es" "sem ?s3 = sem ?s2"
      using solo_saving [of i ?s2 es 0 0 "length es" w] i by auto
    have i3: "i < length (tasks ?s3)" "tasks ?s3 ! i = Saving es' (length es) n'"
      using i s3(1) by simp_all
    let ?s4 = "step w ?ev ?s3"
    have s4: "tasks ?s4 = (tasks ?s3)[i := Releasing]" "sem ?s4 = sem ?s3"
      using step_Saving_end [OF i3, of w None] s3(2) by simp_all
    have i4: "i < length (tasks ?s4)" "tasks ?s4 ! i = Releasing"
      using i3(1) s4(1) by simp_all
    have s5: "tasks (step w ?ev ?s4) = (tasks ?s4)[i := Finished]"
        "sem (step w ?ev ?s4) = sem ?s4 - 1"
      using step_Releasing [OF i4, of w None] s4(2) s3(3) by simp_all
    have rep2: "replicate k x @ [x, x] = x # x # replicate k x" for k and x :: event
      by (induction k) simp_all
    have "soloSched w i = [?ev, ?ev] @ replicate (length es) ?ev @ [?ev, ?ev]"
      using Inr p
      by (simp add: soloSched_def fetchedLen_def numeral_eq_Suc rep2)
    then have "run w (soloSched w i) s = step w ?ev ?s4"
      by (simp only: run_append run_Cons run_Nil s1 s2)
    then show ?thesis
      using s5 s4 s3 by simp
  qed
qed

lemma seq_run:
  assumes "m \<le> length (feedsToUpdate w)"
  shows "tasks (run w (concat (map (soloSched w) [0..<m])) (init w s0)) =
           replicate m Finished @ replicate (length (feedsToUpdate w) - m) Waiting \<and>
         sem (run w (concat (map (soloSched w) [0..<m])) (init w s0)) = 0"
  using assms
proof (induction m)
  case 0
  show ?case by (simp add: run_Nil init_def)
next
  case (Suc m)
  let ?n = "length (feedsToUpdate w)"
  let ?s = "run w (concat (map (soloSched w) [0..<m])) (init w s0)"
  have ih: "tasks ?s = replicate m Finished @ replicate (?n - m) Waiting" "sem ?s = 0"
    using Suc by simp_all
  have m: "m < length (tasks ?s)" using Suc.prems ih(1) by simp
  have wt: "tasks ?s ! m = Waiting"
    using Suc.prems by (simp add: ih(1) nth_append)
  have "sem ?s < semCapacity" by (simp add: ih(2) semCapacity_def)
  from solo_run [OF m wt this, of w]
  have "tasks (run w (soloSched w m) ?s) = (tasks ?s)[m := Finished]"
    "sem (run w (soloSched w m) ?s) = 0"
    using ih(2) by simp_all
  moreover have "(replicate m Finished @ replicate (?n - m) Waiting)[m := Finished] =
      replicate (Suc m) Finished @ replicate (?n - Suc m) Waiting"
  proof -
    obtain r where r: "?n - m = Suc r" using Suc.prems by (cases "?n - m") simp_all
    then have "?n - Suc m = r" by simp
    then show ?thesis
      by (simp add: r list_update_append replicate_append_same)
  qed
  ultimately show ?case
    by (simp add: run_append ih(1))
qed

lemma updateFeeds_completes:
  "\<exists>rep. updateFeeds w (seqSched w) s0 = Some rep"
proof -
  have "tasks (run w (seqSched w) (init w s0)) = replicate (length (feedsToUpdate w)) Finished"
    using seq_run [of "length (feedsToUpdate w)" w s0] by (simp add: seqSched_def)
  then have "wgDone (run w (seqSched w) (init w s0))"
    by (simp add: wgDone_def list_all_iff)
  then show ?thesis by (simp add: updateFeeds_def Let_def)
qed


subsection \<open>The report\<close>

lemma results_step_other:
  "u \<noteq> feed_URL (feedsToUpdate w ! i) \<Longrightarrow> results (step w (i, fault) s) u = results s u"
  by (simp add: step_def Let_def split: task.split sum.split prod.split)


lemma urlOf_inj:
  assumes "distinct (map feed_URL (feedsToUpdate w))"
    and "i < length (feedsToUpdate w)" "j < length (feedsToUpdate w)" "i \<noteq> j"
  shows "urlOf w i \<noteq> urlOf w j"
proof -
  have "(map feed_URL (feedsToUpdate w) ! i = map feed_URL (feedsToUpdate w) ! j) = (i = j)"
    using assms by (intro nth_eq_iff_index_eq) simp_all
  then show ?thesis using assms(2,3,4) by (simp add: urlOf_def)
qed

lemma sum_new_update:
  assumes "distinct (map feed_URL fs)" "i < length fs" "r (feed_URL (fs ! i)) = None"
  shows "sum_list (map (\<lambda>f. newOf ((r(feed_URL (fs ! i) \<mapsto> v)) (feed_URL f))) fs) =
         sum_list (map (\<lambda>f. newOf (r (feed_URL f))) fs) + newOf (Some v)"
  using assms
proof (induction fs arbitrary: i)
  case Nil
  then show ?case by simp
next
  case (Cons g fs)
  show ?case
  proof (cases i)
    case 0
    have notin: "feed_URL g \<notin> feed_URL ` set fs"
      using Cons.prems(1) by simp
    have "feed_URL f \<noteq> feed_URL g" if "f \<in> set fs" for f
    proof
      assume "feed_URL f = feed_URL g"
      moreover have "feed_URL f \<in> feed_URL ` set fs" using that by (rule imageI)
      ultimately show False using notin by simp
    qed
    then have "sum_list (map (\<lambda>f. newOf ((r(feed_URL g \<mapsto> v)) (feed_URL f))) fs) =
               sum_list (map (\<lambda>f. newOf (r (feed_URL f))) fs)"
      by (intro arg_cong [where f = sum_list] map_cong) simp_all
    moreover have "newOf (r (feed_URL g)) = 0"
      using Cons.prems(3) 0 by (simp add: newOf_def)
    ultimately show ?thesis using 0 by simp
  next
    case (Suc j)
    have j: "j < length fs" using Cons.prems(2) Suc by simp
    have notin: "feed_URL g \<notin> feed_URL ` set fs"
      using Cons.prems(1) by simp
    have ne: "feed_URL (fs ! j) \<noteq> feed_URL g"
    proof
      assume "feed_URL (fs ! j) = feed_URL g"
      moreover have "feed_URL (fs ! j) \<in> feed_URL ` set fs"
        using j by (intro imageI nth_mem)
      ultimately show False using notin by simp
    qed
    have "sum_list (map (\<lambda>f. newOf ((r(feed_URL (fs ! j) \<mapsto> v)) (feed_URL f))) fs) =
          sum_list (map (\<lambda>f. newOf (r (feed_URL f))) fs) + newOf (Some v)"
      using Cons.prems Suc j by (intro Cons.IH) simp_all
    then show ?thesis using Suc ne by simp
  qed
qed

lemma syncInv_init: "syncInv w (init w s0)"
  by (simp add: syncInv_def init_def taskOk_def newOf_def)

lemma syncInv_tasks_update:
  assumes inv: "syncInv w s" and i: "i < length (feedsToUpdate w)"
    and ok: "taskOk w i t (results s (urlOf w i))"
  shows "syncInv w (s\<lparr>tasks := (tasks s)[i := t]\<rparr>)"
proof -
  have "taskOk w j ((tasks s)[i := t] ! j) (results s (urlOf w j))"
    if "j < length (feedsToUpdate w)" for j
    using inv that ok by (cases "j = i") (simp_all add: syncInv_def)
  then show ?thesis using inv by (simp add: syncInv_def)
qed

lemma syncInv_more [simp]:
  "syncInv w (s\<lparr>sem := a\<rparr>) = syncInv w s" "syncInv w (s\<lparr>db := b\<rparr>) = syncInv w s"
  by (simp_all add: syncInv_def)

lemma syncInv_report:
  assumes d: "distinct (map feed_URL (feedsToUpdate w))"
    and inv: "syncInv w s" and i: "i < length (feedsToUpdate w)"
    and none: "results s (urlOf w i) = None"
    and rep: "reported w i (Some v)"
    and t: "t = Releasing"
  shows "syncInv w (s\<lparr>tasks := (tasks s)[i := t],
                     totalNewEntries := totalNewEntries s + newOf (Some v),
                     results := (results s)(urlOf w i \<mapsto> v)\<rparr>)"
proof -
  let ?s' = "s\<lparr>tasks := (tasks s)[i := t],
                totalNewEntries := totalNewEntries s + newOf (Some v),
                results := (results s)(urlOf w i \<mapsto> v)\<rparr>"
  have len: "length (tasks s) = length (feedsToUpdate w)" using inv by (simp add: syncInv_def)
  have "taskOk w j (tasks ?s' ! j) (results ?s' (urlOf w j))"
    if j: "j < length (feedsToUpdate w)" for j
  proof (cases "j = i")
    case True
    then show ?thesis using rep t i len by (simp add: taskOk_def)
  next
    case False
    then have "urlOf w j \<noteq> urlOf w i" using urlOf_inj [OF d j i] by simp
    then show ?thesis using False inv j by (simp add: syncInv_def)
  qed
  moreover have "dom (results ?s') \<subseteq> set (map feed_URL (feedsToUpdate w))"
    using inv i by (auto simp: syncInv_def urlOf_def)
  moreover have "totalNewEntries ?s' =
      sum_list (map (\<lambda>f. newOf (results ?s' (feed_URL f))) (feedsToUpdate w))"
    using sum_new_update [OF d i, of "results s" v] none inv
    by (simp add: syncInv_def urlOf_def)
  ultimately show ?thesis using len by (simp add: syncInv_def)
qed

lemma syncInv_step:
  assumes d: "distinct (map feed_URL (feedsToUpdate w))" and inv: "syncInv w s"
  shows "syncInv w (step w ev s)"
proof -
  obtain i fault where ev: "ev = (i, fault)" by (cases ev)
  have len: "length (tasks s) = length (feedsToUpdate w)" using inv by (simp add: syncInv_def)
  show ?thesis
  proof (cases "i < length (tasks s)")
    case False
    then show ?thesis using inv by (simp add: ev step_out_of_range)
  next
    case True
    then have i: "i < length (feedsToUpdate w)" using len by simp
    have ok: "taskOk w i (tasks s ! i) (results s (urlOf w i))"
      using inv i by (simp add: syncInv_def)
    show ?thesis
    proof (cases "tasks s ! i")
      case Waiting
      then show ?thesis
        using ok syncInv_tasks_update [OF inv i, of Holding]
        by (simp add: ev step_Waiting [OF True] taskOk_def inv)
    next
      case Holding
      show ?thesis
      proof (cases "fetchOf w i")
        case (Inl err)
        then show ?thesis
          using ok Holding syncInv_tasks_update [OF inv i, of "FetchFailed err"]
          by (simp add: ev step_Holding [OF True] taskOk_def)
      next
        case (Inr p)
        obtain f es where "p = (f, es)" by (cases p)
        with Inr show ?thesis
          using ok Holding syncInv_tasks_update [OF inv i, of "Saving es 0 0"]
          by (simp add: ev step_Holding [OF True] taskOk_def)
      qed
    next
      case (FetchFailed err)
      then have "results s (urlOf w i) = None" "reported w i (Some (Failed err))"
        using ok by (simp_all add: taskOk_def reported_def)
      from syncInv_report [OF d inv i this refl] show ?thesis
        using FetchFailed
        by (simp add: ev step_FetchFailed [OF True] newOf_def urlOf_def)
    next
      case (Saving es k n)
      show ?thesis
      proof (cases "k < length es")
        case lt: True
        obtain err entry db' where
          sv: "SaveEntry fault ((es ! k)\<lparr>FeedID := feed_ID (feedsToUpdate w ! i)\<rparr>) (db s) =
                (err, entry, db')"
          by (cases "SaveEntry fault ((es ! k)\<lparr>FeedID := feed_ID (feedsToUpdate w ! i)\<rparr>) (db s)")
        have "taskOk w i (Saving (es[k := entry]) (k + 1) (if err = None then n + 1 else n))
                (results s (urlOf w i))"
          using ok Saving lt by (auto simp: taskOk_def split: sum.splits)
        from syncInv_tasks_update [OF inv i this] show ?thesis
          by (simp add: ev step_Saving_next [OF True Saving lt sv])
      next
        case False
        have "results s (urlOf w i) = None" "reported w i (Some (Counts n (length es)))"
          using ok Saving False by (auto simp: taskOk_def reported_def split: sum.splits)
        from syncInv_report [OF d inv i this refl] show ?thesis
          using Saving False
          by (simp add: ev step_Saving_end [OF True] newOf_def urlOf_def)
      qed
    next
      case Releasing
      then show ?thesis
        using ok inv syncInv_tasks_update [OF inv i, of Finished]
        by (simp add: ev step_Releasing [OF True] taskOk_def)
    next
      case Finished
      then show ?thesis using inv True by (simp add: ev step_Finished)
    qed
  qed
qed

lemma syncInv_run:
  "distinct (map feed_URL (feedsToUpdate w)) \<Longrightarrow> syncInv w (run w sched (init w s0))"
  by (rule run_invariant) (simp_all add: syncInv_init syncInv_step)

lemma reported_resultFor:
  assumes "reported w i r"
  shows "\<exists>n. r = Some (resultFor w i n) \<and>
             (case fetchOf w i of Inl err \<Rightarrow> True | Inr (f, es) \<Rightarrow> n \<le> length es)"
proof (cases r)
  case None
  then show ?thesis using assms by (simp add: reported_def)
next
  case (Some v)
  show ?thesis
  proof (cases v)
    case (Counts n t)
    then show ?thesis
      using assms Some
      by (intro exI [of _ n]) (auto simp: reported_def resultFor_def split: sum.splits)
  next
    case (Failed err)
    then show ?thesis
      using assms Some by (intro exI [of _ 0]) (simp add: reported_def resultFor_def)
  qed
qed

lemma wgDone_nth: "wgDone s \<Longrightarrow> i < length (tasks s) \<Longrightarrow> tasks s ! i = Finished"
  by (simp add: wgDone_def list_all_length)

lemma done_reported:
  assumes "syncInv w s" "wgDone s" "i < length (feedsToUpdate w)"
  shows "reported w i (results s (urlOf w i))"
proof -
  have "tasks s ! i = Finished" using assms by (intro wgDone_nth) (simp_all add: syncInv_def)
  moreover have "taskOk w i (tasks s ! i) (results s (urlOf w i))"
    using assms by (simp add: syncInv_def)
  ultimately show ?thesis by (simp add: taskOk_def)
qed

lemma done_dom:
  assumes "syncInv w s" "wgDone s"
  shows "dom (results s) = set (map feed_URL (feedsToUpdate w))"
proof
  show "dom (results s) \<subseteq> set (map feed_URL (feedsToUpdate w))"
    using assms(1) by (simp add: syncInv_def)
next
  show "set (map feed_URL (feedsToUpdate w)) \<subseteq> dom (results s)"
  proof
    fix u assume "u \<in> set (map feed_URL (feedsToUpdate w))"
    then obtain i where i: "i < length (feedsToUpdate w)" "u = urlOf w i"
      by (auto simp: in_set_conv_nth urlOf_def)
    from done_reported [OF assms i(1)] have "results s u \<noteq> None"
      using i(2) by (cases "results s (urlOf w i)") (simp_all add: reported_def)
    then show "u \<in> dom (results s)" by auto
  qed
qed

lemma sum_list_urls:
  assumes "distinct (map feed_URL fs)"
  shows "sum_list (map (\<lambda>f. g (feed_URL f)) fs) = (\<Sum>u\<in>set (map feed_URL fs). g u)"
proof -
  have "sum_list (map (\<lambda>f. g (feed_URL f)) fs) = sum_list (map g (map feed_URL fs))"
    by (simp add: comp_def)
  also have "\<dots> = (\<Sum>u\<in>set (map feed_URL fs). g u)"
    using assms by (rule sum_list_distinct_conv_sum_set)
  finally show ?thesis .
qed

lemma report_of_completed_run:
  assumes "distinct (map feed_URL (feedsToUpdate w))"
    and "updateFeeds w sched s0 = Some rep"
  shows "dom (report_results rep) = set (map feed_URL (feedsToUpdate w))
    \<and> card (dom (report_results rep)) = length (feedsToUpdate w)
    \<and> updated_feeds rep = length (feedsToUpdate w)
    \<and> (\<forall>i < length (feedsToUpdate w).
          \<exists>n. report_results rep (feed_URL (feedsToUpdate w ! i)) = Some (resultFor w i n) \<and>
              (case fetchOf w i of Inl err \<Rightarrow> True | Inr (f, es) \<Rightarrow> n \<le> length es))
    \<and> total_new_entries rep =
        (\<Sum>u \<in> dom (report_results rep). newOf (report_results rep u))
    \<and> (\<forall>j fault s u. u \<noteq> feed_URL (feedsToUpdate w ! j) \<longrightarrow>
          results (step w (j, fault) s) u = results s u)"
proof -
  let ?s = "run w sched (init w s0)"
  have dn: "wgDone ?s"
    using assms(2) by (simp add: updateFeeds_def Let_def split: if_splits)
  have rep: "rep = \<lparr>updated_feeds = length (feedsToUpdate w),
                    total_new_entries = totalNewEntries ?s, report_results = results ?s\<rparr>"
    using assms(2) dn by (simp add: updateFeeds_def Let_def)
  have inv: "syncInv w ?s" using assms(1) by (rule syncInv_run)
  have dom: "dom (results ?s) = set (map feed_URL (feedsToUpdate w))"
    using inv dn by (rule done_dom)
  have card: "card (dom (results ?s)) = length (feedsToUpdate w)"
    using assms(1) distinct_card [of "map feed_URL (feedsToUpdate w)"] by (simp only: dom) simp
  have each: "\<exists>n. results ?s (feed_URL (feedsToUpdate w ! i)) = Some (resultFor w i n) \<and>
              (case fetchOf w i of Inl err \<Rightarrow> True | Inr (f, es) \<Rightarrow> n \<le> length es)"
    if "i < length (feedsToUpdate w)" for i
    using reported_resultFor [OF done_reported [OF inv dn that]] by (simp add: urlOf_def)
  have "totalNewEntries ?s =
      sum_list (map (\<lambda>f. newOf (results ?s (feed_URL f))) (feedsToUpdate w))"
    using inv by (simp add: syncInv_def)
  also have "\<dots> = (\<Sum>u \<in> set (map feed_URL (feedsToUpdate w)). newOf (results ?s u))"
    using assms(1) by (rule sum_list_urls)
  finally have tot: "totalNewEntries ?s = (\<Sum>u \<in> dom (results ?s). newOf (results ?s u))"
    by (simp only: dom)
  show ?thesis
    using dom card each tot results_step_other by (simp add: rep)
qed


text \<open>
  Claim C1. Every sync can run to its end: with the goroutines one after the other
  \<open>wg.Wait()\<close> returns and \<open>updateFeeds\<close> hands out a report. And whenever, over a working
  set with distinct URLs and under any schedule, \<open>updateFeeds\<close> hands out a report, the map
  \<open>results\<close> of that report has exactly the URLs of the working set as its keys, one entry
  per source. The entry of a source is the one its own fetch calls for: the error if the
  fetch failed, and otherwise the length of the fetched list as \<open>total_entries\<close> with a
  \<open>new_entries\<close> not above it. \<open>total_new_entries\<close> is the sum of \<open>new_entries\<close> over the
  success entries. And no step of a goroutine, a failed fetch included, changes the entry
  under the URL of another source.
\<close>

theorem updateFeeds_report:
  "(\<exists>sched rep. updateFeeds w sched s0 = Some rep)
   \<and> (\<exists>rep. updateFeeds w (seqSched w) s0 = Some rep)
   \<and> (distinct (map feed_URL (feedsToUpdate w)) \<and> updateFeeds w sched s0 = Some rep \<longrightarrow>
      dom (report_results rep) = set (map feed_URL (feedsToUpdate w))
      \<and> card (dom (report_results rep)) = length (feedsToUpdate w)
      \<and> updated_feeds rep = length (feedsToUpdate w)
      \<and> (\<forall>i < length (feedsToUpdate w).
            \<exists>n. report_results rep (feed_URL (feedsToUpdate w ! i)) = Some (resultFor w i n) \<and>
                (case fetchOf w i of Inl err \<Rightarrow> True | Inr (f, es) \<Rightarrow> n \<le> length es))
      \<and> total_new_entries rep =
          (\<Sum>u \<in> dom (report_results rep). newOf (report_results rep u))
      \<and> (\<forall>j fault s u. u \<noteq> feed_URL (feedsToUpdate w ! j) \<longrightarrow>
            results (step w (j, fault) s) u = results s u))"
proof (intro conjI impI)
  show "\<exists>rep. updateFeeds w (seqSched w) s0 = Some rep"
    by (rule updateFeeds_completes)
  then show "\<exists>sched rep. updateFeeds w sched s0 = Some rep" by blast
next
  assume a: "distinct (map feed_URL (feedsToUpdate w)) \<and> updateFeeds w sched s0 = Some rep"
  then have d: "distinct (map feed_URL (feedsToUpdate w))"
    and u: "updateFeeds w sched s0 = Some rep" by simp_all
  note r = report_of_completed_run [OF d u]
  show "dom (report_results rep) = set (map feed_URL (feedsToUpdate w))" using r by blast
  show "card (dom (report_results rep)) = length (feedsToUpdate w)" using r by blast
  show "updated_feeds rep = length (feedsToUpdate w)" using r by blast
  show "\<forall>i < length (feedsToUpdate w).
            \<exists>n. report_results rep (feed_URL (feedsToUpdate w ! i)) = Some (resultFor w i n) \<and>
                (case fetchOf w i of Inl err \<Rightarrow> True | Inr (f, es) \<Rightarrow> n \<le> length es)"
    using r by blast
  show "total_new_entries rep = (\<Sum>u \<in> dom (report_results rep). newOf (report_results rep u))"
    using r by blast
  show "\<forall>j fault s u. u \<noteq> feed_URL (feedsToUpdate w ! j) \<longrightarrow>
            results (step w (j, fault) s) u = results s u"
    using r by blast
qed

theorem updateFeeds_report_witness:
  "distinct (map feed_URL (feedsToUpdate exWorld))
   \<and> (\<exists>rep. updateFeeds exWorld (seqSched exWorld) emptyStore = Some rep)
   \<and> (\<exists>rep. updateFeeds exWorld exSched emptyStore = Some rep
        \<and> updated_feeds rep = 3
        \<and> dom (report_results rep) = {''https://a/rss'', ''https://b/rss'', ''https://c/rss''}
        \<and> report_results rep ''https://a/rss'' = Some (Counts 1 3)
        \<and> report_results rep ''https://b/rss'' =
            Some (Failed (Wrapped ''failed to fetch feed from https://b/rss''
                           (TransportFailure ''connection refused'')))
        \<and> report_results rep ''https://c/rss'' = Some (Counts 1 1)
        \<and> total_new_entries rep = 2
        \<and> total_new_entries rep =
            (\<Sum>u \<in> dom (report_results rep). newOf (report_results rep u)))"
proof -
  let ?s = "run exWorld exSched (init exWorld emptyStore)"
  let ?rep = "\<lparr>updated_feeds = length (feedsToUpdate exWorld),
            total_new_entries = totalNewEntries ?s, report_results = results ?s\<rparr>"
  have h1: "distinct (map feed_URL (feedsToUpdate exWorld))"
    by (simp add: exWorld_def exFeed_def)
  have dn: "wgDone ?s" by code_simp
  have h2: "updateFeeds exWorld exSched emptyStore = Some ?rep"
    using dn by (simp add: updateFeeds_def Let_def)
  have a: "results ?s ''https://a/rss'' = Some (Counts 1 3)" by code_simp
  have b: "results ?s ''https://b/rss'' =
       Some (Failed (Wrapped ''failed to fetch feed from https://b/rss''
                      (TransportFailure ''connection refused'')))" by code_simp
  have c: "results ?s ''https://c/rss'' = Some (Counts 1 1)" by code_simp
  have t: "totalNewEntries ?s = 2" by code_simp
  have urls: "set (map feed_URL (feedsToUpdate exWorld)) =
      {''https://a/rss'', ''https://b/rss'', ''https://c/rss''}"
    by (simp add: exWorld_def exFeed_def)
  have n: "length (feedsToUpdate exWorld) = 3" by (simp add: exWorld_def)
  note inst = updateFeeds_report [of exWorld emptyStore exSched ?rep]
  have e: "\<exists>rep. updateFeeds exWorld (seqSched exWorld) emptyStore = Some rep"
    using inst by blast
  have "dom (report_results ?rep) = set (map feed_URL (feedsToUpdate exWorld)) \<and>
      total_new_entries ?rep = (\<Sum>u \<in> dom (report_results ?rep). newOf (report_results ?rep u))"
    using inst h1 h2 by blast
  then have "updateFeeds exWorld exSched emptyStore = Some ?rep
        \<and> updated_feeds ?rep = 3
        \<and> dom (report_results ?rep) = {''https://a/rss'', ''https://b/rss'', ''https://c/rss''}
        \<and> report_results ?rep ''https://a/rss'' = Some (Counts 1 3)
        \<and> report_results ?rep ''https://b/rss'' =
            Some (Failed (Wrapped ''failed to fetch feed from https://b/rss''
                           (TransportFailure ''connection refused'')))
        \<and> report_results ?rep ''https://c/rss'' = Some (Counts 1 1)
        \<and> total_new_entries ?rep = 2
        \<and> total_new_entries ?rep =
            (\<Sum>u \<in> dom (report_results ?rep). newOf (report_results ?rep u))"
    using h2 a b c t urls n by (simp add: newOf_def)
  then have "\<exists>rep. updateFeeds exWorld exSched emptyStore = Some rep
        \<and> updated_feeds rep = 3
        \<and> dom (report_results rep) = {''https://a/rss'', ''https://b/rss'', ''https://c/rss''}
        \<and> report_results rep ''https://a/rss'' = Some (Counts 1 3)
        \<and> report_results rep ''https://b/rss'' =
            Some (Failed (Wrapped ''failed to fetch feed from https://b/rss''
                           (TransportFailure ''connection refused'')))
        \<and> report_results rep ''https://c/rss'' = Some (Counts 1 1)
        \<and> total_new_entries rep = 2
        \<and> total_new_entries rep =
            (\<Sum>u \<in> dom (report_results rep). newOf (report_results rep u))"
    by (rule exI)
  with h1 e show ?thesis by blast
qed

subsection \<open>Errors of SaveEntry during a run\<close>









section \<open>Marking entries read\<close>


lemma count_upt_Suc:
  "length (filter P [0..<Suc n]) = (if P 0 then 1 else 0) + length (filter (\<lambda>k. P (Suc k)) [0..<n])"
proof -
  have "[0..<Suc n] = 0 # map Suc [0..<n]"
    by (simp add: upt_conv_Cons map_Suc_upt del: upt_Suc)
  then have "filter P [0..<Suc n] = filter P (0 # map Suc [0..<n])" by (simp only:)
  then show ?thesis by (simp add: filter_map comp_def del: upt_Suc)
qed





subsection \<open>markAllRead\<close>

lemma MarkEntryRead_entries:
  "entries (snd (MarkEntryRead fault i True s)) =
     map (\<lambda>r. if fault = None \<and> row_id r = i then r\<lparr>row_is_read := 1\<rparr> else r) (entries s)"
  by (cases fault) (simp_all add: MarkEntryRead_def boolToInt_def)

lemma markAllRead_loop_entries:
  "entries (markAllRead_loop faults k es s) =
     map (\<lambda>r. if row_id r \<in> ID ` set (markedEntries faults k es)
               then r\<lparr>row_is_read := 1\<rparr> else r) (entries s)"
proof (induction es arbitrary: k s)
  case Nil
  show ?case by simp
next
  case (Cons e es)
  show ?case
    unfolding markAllRead_loop.simps Cons.IH MarkEntryRead_entries map_map
    by (rule map_cong) auto
qed

lemma length_markedEntries:
  "length (markedEntries faults k es) =
     length (filter (\<lambda>j. faults (k + j) = None) [0..<length es])"
proof (induction es arbitrary: k)
  case Nil
  show ?case by simp
next
  case (Cons e es)
  show ?case
    using Cons.IH [of "k + 1"] by (simp add: count_upt_Suc del: upt_Suc)
qed

lemma set_markedEntries: "set (markedEntries faults k es) \<subseteq> set es"
  by (induction es arbitrary: k) auto

lemma distinct_markedEntries:
  "distinct (map ID es) \<Longrightarrow> distinct (map ID (markedEntries faults k es))"
proof (induction es arbitrary: k)
  case Nil
  show ?case by simp
next
  case (Cons e es)
  have "ID e \<notin> ID ` set (markedEntries faults (k + 1) es)"
    using Cons.prems set_markedEntries [of faults "k + 1" es] by auto
  then show ?case using Cons by (cases "faults k") auto
qed

lemma changedCount_map:
  assumes "entries s' = map g (entries s)"
  shows "changedCount s s' =
     length (filter (\<lambda>r. intToBool (row_is_read r) \<noteq> intToBool (row_is_read (g r))) (entries s))"
proof -
  have "zip xs (map g xs) = map (\<lambda>x. (x, g x)) xs" for xs :: "Row list"
    by (induction xs) simp_all
  then show ?thesis
    by (simp add: changedCount_def assms filter_map comp_def)
qed

lemma count_rows_with_ids:
  assumes d: "distinct (map row_id rows)" and dS: "distinct S"
    and sub: "set S \<subseteq> row_id ` set rows"
  shows "length (filter (\<lambda>r. row_id r \<in> set S) rows) = length S"
proof -
  have inj: "inj_on row_id (set rows)" and dr: "distinct rows"
    using d by (simp_all add: distinct_map)
  have "length (filter (\<lambda>r. row_id r \<in> set S) rows) = card {r \<in> set rows. row_id r \<in> set S}"
    using dr distinct_length_filter [of rows "\<lambda>r. row_id r \<in> set S"]
    by (simp add: Collect_conj_eq Int_commute)
  also have "\<dots> = card (row_id ` {r \<in> set rows. row_id r \<in> set S})"
    by (rule card_image [symmetric]) (rule inj_on_subset [OF inj], auto)
  also have "row_id ` {r \<in> set rows. row_id r \<in> set S} = set S"
    using sub by auto
  also have "card (set S) = length S" using dS by (rule distinct_card)
  finally show ?thesis .
qed

lemma snapshot_ids:
  assumes "GetEntries None unreadOnly s = Inr snap"
  shows "map ID snap = map row_id (sort_key (\<lambda>r. - row_published r)
                 (filter (\<lambda>r. row_is_read r = 0) (entries s)))"
    and "length snap = unreadCount s"
proof -
  have snap: "snap = map scanRow (sort_key (\<lambda>r. - row_published r)
                 (filter (\<lambda>r. row_is_read r = 0) (entries s)))"
    using assms by (simp add: GetEntries_def unreadOnly_def)
  show "map ID snap = map row_id (sort_key (\<lambda>r. - row_published r)
                 (filter (\<lambda>r. row_is_read r = 0) (entries s)))"
    by (simp add: snap scanRow_def comp_def)
  show "length snap = unreadCount s" by (simp add: snap unreadCount_def)
qed

text \<open>
  Claim C9. On a store that opened and answered the query, \<open>markAllRead\<close> reports as
  \<open>marked_read\<close> the length of the snapshot of unread entries that \<open>GetEntries\<close> returned.
  The errors of the \<open>MarkEntryRead\<close> calls are dropped, so the rows whose read flag changed
  are as many as the calls that went through: when the driver fails in some call, the
  reported number is larger than the number of rows that changed.
\<close>

theorem markAllRead_reports_snapshot:
  assumes "distinct (map row_id (entries s))"
  shows "\<exists>snap s'. GetEntries None unreadOnly s = Inr snap
    \<and> markAllRead None faults (Inr s) = Inr (length snap, s')
    \<and> length snap = unreadCount s
    \<and> changedCount s s' = length (filter (\<lambda>k. faults k = None) [0..<length snap])
    \<and> ((\<exists>k < length snap. faults k \<noteq> None) \<longrightarrow> changedCount s s' < length snap)"
proof -
  obtain snap where g: "GetEntries None unreadOnly s = Inr snap"
    by (simp add: GetEntries_def unreadOnly_def)
  let ?s' = "markAllRead_loop faults 0 snap s"
  let ?M = "markedEntries faults 0 snap"
  let ?g = "\<lambda>r. if row_id r \<in> ID ` set ?M then r\<lparr>row_is_read := 1\<rparr> else r"
  have m: "markAllRead None faults (Inr s) = Inr (length snap, ?s')"
    by (simp add: markAllRead_def g)
  let ?sorted = "sort_key (\<lambda>r. - row_published r) (filter (\<lambda>r. row_is_read r = 0) (entries s))"
  have ids: "map ID snap = map row_id ?sorted"
    and len: "length snap = unreadCount s"
    using snapshot_ids [OF g] by simp_all
  have inj: "inj_on row_id (set (entries s))" and dr: "distinct (entries s)"
    using assms by (simp_all add: distinct_map)
  have "distinct ?sorted" using dr by simp
  moreover have "inj_on row_id (set ?sorted)"
    by (rule inj_on_subset [OF inj]) auto
  ultimately have dsnap: "distinct (map ID snap)"
    by (simp only: ids distinct_map)
  have "set (map ID snap) = set (map row_id ?sorted)" by (simp only: ids)
  then have setsnap: "ID ` set snap = row_id ` {r \<in> set (entries s). row_is_read r = 0}"
    by simp
  have dM: "distinct (map ID ?M)" using dsnap by (rule distinct_markedEntries)
  have subM: "ID ` set ?M \<subseteq> row_id ` {r \<in> set (entries s). row_is_read r = 0}"
    using set_markedEntries [of faults 0 snap] setsnap by blast
  have unread: "row_is_read r = 0" if "r \<in> set (entries s)" "row_id r \<in> ID ` set ?M" for r
  proof -
    from that(2) subM obtain r' where "r' \<in> set (entries s)" "row_is_read r' = 0"
      "row_id r = row_id r'" by auto
    with inj that(1) have "r = r'" by (auto dest: inj_onD)
    with \<open>row_is_read r' = 0\<close> show ?thesis by simp
  qed
  have "changedCount s ?s' =
      length (filter (\<lambda>r. intToBool (row_is_read r) \<noteq> intToBool (row_is_read (?g r))) (entries s))"
    by (rule changedCount_map) (rule markAllRead_loop_entries)
  also have "\<dots> = length (filter (\<lambda>r. row_id r \<in> set (map ID ?M)) (entries s))"
    by (rule arg_cong [where f = length], rule filter_cong) (auto simp: intToBool_def unread)
  also have "\<dots> = length (map ID ?M)"
    using assms dM subM by (intro count_rows_with_ids) auto
  also have "\<dots> = length (filter (\<lambda>k. faults k = None) [0..<length snap])"
    by (simp add: length_markedEntries)
  finally have ch: "changedCount s ?s' = length (filter (\<lambda>k. faults k = None) [0..<length snap])" .
  have less: "changedCount s ?s' < length snap" if "\<exists>k < length snap. faults k \<noteq> None"
  proof -
    from that obtain k where k: "k < length snap" "faults k \<noteq> None" by blast
    then have "k \<in> set [0..<length snap]" "\<not> (faults k = None)" by simp_all
    then have "length (filter (\<lambda>k. faults k = None) [0..<length snap]) < length [0..<length snap]"
      by (rule length_filter_less)
    then show ?thesis by (simp add: ch)
  qed
  show ?thesis
    using g m len ch less by blast
qed

theorem markAllRead_reports_snapshot_witness:
  "distinct (map row_id (entries exStore))
   \<and> fst (projr (markAllRead None driverFailsOnce (Inr exStore))) = 3
   \<and> changedCount exStore (snd (projr (markAllRead None driverFailsOnce (Inr exStore)))) = 2
   \<and> driverFailsOnce 1 \<noteq> None"
proof -
  have h: "distinct (map row_id (entries exStore))"
    by (simp add: exStore_def exRow_def)
  obtain snap s' where w: "GetEntries None unreadOnly exStore = Inr snap"
      "markAllRead None driverFailsOnce (Inr exStore) = Inr (length snap, s')"
      "length snap = unreadCount exStore"
      "changedCount exStore s' =
         length (filter (\<lambda>k. driverFailsOnce k = None) [0..<length snap])"
    using markAllRead_reports_snapshot [OF h, of driverFailsOnce] by blast
  have u: "unreadCount exStore = 3" by (simp add: unreadCount_def exStore_def exRow_def)
  have c: "length (filter (\<lambda>k. driverFailsOnce k = None) [0..<3]) = 2" by code_simp
  have f: "driverFailsOnce 1 \<noteq> None" by (simp add: driverFailsOnce_def)
  show ?thesis using h w u c f by simp
qed

section \<open>The uniqueness rule of the store\<close>


lemma row_id_entryRow [simp]: "row_id (entryRow i e) = i"
  by (simp add: entryRow_def)







subsection \<open>Repeating a sync\<close>























end
